theory Spec2Isabelle
  imports Complex_Main "HOL-Library.AList" "HOL-Library.Product_Lexorder"
begin

section \<open>Python and numpy values\<close>

text \<open>
  The exceptions the modelled code can raise. None of them is raised by the repository's
  own code: they come from numpy (\<open>ValueError\<close> on a shape mismatch, \<open>IndexError\<close> on a row
  that does not exist) and from Python's containers and strings.
\<close>

datatype py_error = ValueError | IndexError | KeyError | AttributeError | TypeError

text \<open>
  A float64 as numpy computes it here: a real number, or NaN. The operations below are
  exact: the rounding of the similarities is a parameter of \<open>search_with\<close>, and that of
  the recommender's scores is \<open>round_double\<close>; overflow is not modelled. NaN is kept,
  because numpy divides by a zero norm without raising: \<open>0.0 / 0.0\<close> is NaN, every
  comparison with NaN is false, and a sort puts NaN last.
\<close>

datatype npfloat = Fin real | NaN

fun np_mul :: "npfloat \<Rightarrow> npfloat \<Rightarrow> npfloat" where
  "np_mul (Fin x) (Fin y) = Fin (x * y)"
| "np_mul _ _ = NaN"

fun np_add :: "npfloat \<Rightarrow> npfloat \<Rightarrow> npfloat" where
  "np_add (Fin x) (Fin y) = Fin (x + y)"
| "np_add _ _ = NaN"

fun np_ge :: "npfloat \<Rightarrow> real \<Rightarrow> bool" where
  "np_ge (Fin x) t = (t \<le> x)"
| "np_ge NaN t = False"

text \<open>The order numpy sorts by: the reals in their order, NaN after all of them.\<close>

fun np_key :: "npfloat \<Rightarrow> bool \<times> real" where
  "np_key (Fin x) = (False, x)"
| "np_key NaN = (True, 0)"

text \<open>\<open>np.linalg.norm\<close> of a one-dimensional array.\<close>

definition np_norm :: "real list \<Rightarrow> real" where
  "np_norm v = sqrt (\<Sum>x\<leftarrow>v. x * x)"

text \<open>
  \<open>v / np.linalg.norm(v)\<close>, element by element. A norm of zero means that every
  component is zero, so each quotient is \<open>0.0 / 0.0\<close>, NaN; the array keeps its length.
\<close>

definition np_normalize :: "real list \<Rightarrow> npfloat list" where
  "np_normalize v =
     (let n = np_norm v in
      if n = 0 then map (\<lambda>_. NaN) v else map (\<lambda>x. Fin (x / n)) v)"

text \<open>\<open>np.dot\<close> of two one-dimensional arrays of one length.\<close>

definition np_dot :: "npfloat list \<Rightarrow> npfloat list \<Rightarrow> npfloat" where
  "np_dot a b = foldl np_add (Fin 0) (map (\<lambda>(x, y). np_mul x y) (zip a b))"

text \<open>
  One result that \<open>np.argsort(xs)\<close> can give: the positions of \<open>xs\<close> in ascending order of
  their values, equal values in the order of their positions. numpy's default sort
  promises no order among equal values, so this is the code's result only where no two
  values are equal; what holds for every result numpy can give is stated with
  \<open>search_with\<close> below.
\<close>

definition argsort :: "npfloat list \<Rightarrow> nat list" where
  "argsort xs = sort_key (\<lambda>i. np_key (xs ! i)) [0..<length xs]"

text \<open>
  \<open>np.argpartition(xs, kth)\<close>: a negative \<open>kth\<close> counts from the end, a \<open>kth\<close> out of
  bounds raises \<open>ValueError\<close>. numpy promises only that position \<open>kth\<close> of the result
  holds what a sort would put there, smaller values before it and larger ones after; the
  fully sorted positions are one such result, the one taken here.
\<close>

definition argpartition :: "npfloat list \<Rightarrow> int \<Rightarrow> py_error + nat list" where
  "argpartition xs kth =
     (let n = int (length xs); k = (if kth < 0 then kth + n else kth) in
      if k < 0 \<or> n \<le> k then Inl ValueError else Inr (argsort xs))"

text \<open>The slice \<open>xs[start:]\<close>: a negative \<open>start\<close> counts from the end, and both are clamped.\<close>

definition slice_from :: "int \<Rightarrow> 'a list \<Rightarrow> 'a list" where
  "slice_from start xs =
     (if start < 0 then drop (nat (int (length xs) + start)) xs else drop (nat start) xs)"

text \<open>\<open>str(n)\<close> for a non-negative integer.\<close>

definition digit_char :: "nat \<Rightarrow> char" where
  "digit_char d = ''0123456789'' ! d"

function str_nat :: "nat \<Rightarrow> string" where
  "str_nat n = (if n < 10 then [digit_char n] else str_nat (n div 10) @ [digit_char (n mod 10)])"
  by pat_completeness auto
termination
  by (relation "measure id") auto

declare str_nat.simps [simp del]

subsection \<open>Doubles\<close>

text \<open>
  Python's float arithmetic, where a claim depends on the last bit: an operation gives the
  exact result rounded to the nearest double, and of two doubles equally near the one with
  the even significand. A double other than zero is an integer of 53 bits times a power of
  two; \<open>round_double x\<close> is the double nearest to \<open>x\<close>. Overflow and subnormal numbers are
  not modelled. A decimal literal of the source, such as \<open>0.85\<close>, denotes the double
  nearest to it, \<open>round_double (85 / 100)\<close>.
\<close>

definition round_half_even :: "real \<Rightarrow> int" where
  "round_half_even x =
     (let f = \<lfloor>x\<rfloor> in
      if x - of_int f < 1 / 2 then f
      else if 1 / 2 < x - of_int f then f + 1
      else if even f then f else f + 1)"

definition round_double :: "real \<Rightarrow> real" where
  "round_double x =
     (if x = 0 then 0
      else (let e = \<lfloor>log 2 \<bar>x\<bar>\<rfloor> - 52 in
            of_int (round_half_even (x / 2 powi e)) * 2 powi e))"

section \<open>The vector store (services/vector\_store.py)\<close>

text \<open>
  \<open>VectorStore\<close>: the configured dimension, the two-dimensional array \<open>vectors\<close> as the
  list of its rows, the metadata list, and the dict \<open>id_to_index\<close> as an association list
  in insertion order. The metadata of a record is opaque to the store.
\<close>

record 'm vector_store =
  dimension :: int
  vectors :: "real list list"
  metadata :: "'m list"
  id_to_index :: "(string \<times> nat) list"

text \<open>\<open>__init__\<close> without a store file: an array of no rows, no metadata, an empty dict.\<close>

definition init :: "int \<Rightarrow> 'm vector_store" where
  "init d = \<lparr>dimension = d, vectors = [], metadata = [], id_to_index = []\<rparr>"

definition size_vs :: "'m vector_store \<Rightarrow> nat" where
  "size_vs s = length (metadata s)"

definition gen_id :: "nat \<Rightarrow> string" where
  "gen_id n = ''vec_'' @ str_nat n"

text \<open>
  \<open>self.vectors[idx] = vector\<close>: numpy broadcasts the right-hand side to the row, so a
  vector of the row's length replaces it, a vector of length one fills it, and any other
  length raises \<open>ValueError\<close>.
\<close>

definition assign_row :: "real list \<Rightarrow> real list \<Rightarrow> py_error + real list" where
  "assign_row row vector =
     (if length vector = length row then Inr vector
      else if length vector = 1 then Inr (replicate (length row) (hd vector))
      else Inl ValueError)"

text \<open>
  \<open>add\<close> returns the id, or the exception raised, together with the store as the call
  leaves it. The vector's length is compared with nothing but the rows already stored:
  \<open>np.vstack\<close> raises \<open>ValueError\<close> when it differs from their width.
\<close>

definition add ::
  "'m vector_store \<Rightarrow> real list \<Rightarrow> 'm \<Rightarrow> string option \<Rightarrow> (py_error + string) \<times> 'm vector_store"
where
  "add s vector md vector_id =
     (let vid = (case vector_id of None \<Rightarrow> gen_id (length (metadata s)) | Some i \<Rightarrow> i) in
      case map_of (id_to_index s) vid of
        Some idx \<Rightarrow>
          (if length (vectors s) \<le> idx then (Inl IndexError, s)
           else case assign_row (vectors s ! idx) vector of
             Inl e \<Rightarrow> (Inl e, s)
           | Inr row \<Rightarrow>
               (let s1 = s\<lparr>vectors := (vectors s)[idx := row]\<rparr> in
                if length (metadata s1) \<le> idx then (Inl IndexError, s1)
                else (Inr vid, s1\<lparr>metadata := (metadata s1)[idx := md]\<rparr>)))
      | None \<Rightarrow>
          (if length (vectors s) = 0 then
             (let s1 = s\<lparr>vectors := [vector]\<rparr>;
                  s2 = s1\<lparr>metadata := metadata s1 @ [md]\<rparr> in
              (Inr vid, s2\<lparr>id_to_index := AList.update vid (length (metadata s2) - 1) (id_to_index s2)\<rparr>))
           else if length vector \<noteq> length (hd (vectors s)) then (Inl ValueError, s)
           else
             (let s1 = s\<lparr>vectors := vectors s @ [vector]\<rparr>;
                  s2 = s1\<lparr>metadata := metadata s1 @ [md]\<rparr> in
              (Inr vid, s2\<lparr>id_to_index := AList.update vid (length (metadata s2) - 1) (id_to_index s2)\<rparr>))))"

text \<open>
  \<open>add_batch\<close>: the ids are generated before the loop when none are given; \<open>zip\<close> stops at
  the shortest of its three arguments; an exception of \<open>add\<close> ends the loop and keeps what
  the earlier iterations stored.
\<close>

fun add_batch_loop ::
  "'m vector_store \<Rightarrow> (real list \<times> 'm \<times> string) list \<Rightarrow> string list
     \<Rightarrow> (py_error + string list) \<times> 'm vector_store"
where
  "add_batch_loop s [] ids = (Inr ids, s)"
| "add_batch_loop s ((vector, md, vector_id) # rest) ids =
     (case add s vector md (Some vector_id) of
        (Inl e, s') \<Rightarrow> (Inl e, s')
      | (Inr id', s') \<Rightarrow> add_batch_loop s' rest (ids @ [id']))"

definition add_batch ::
  "'m vector_store \<Rightarrow> real list list \<Rightarrow> 'm list \<Rightarrow> string list option
     \<Rightarrow> (py_error + string list) \<times> 'm vector_store"
where
  "add_batch s vecs metadata_list vector_ids =
     (let ids = (case vector_ids of
                   None \<Rightarrow> map gen_id [length (metadata s)..<length (metadata s) + length vecs]
                 | Some l \<Rightarrow> l)
      in add_batch_loop s (zip vecs (zip metadata_list ids)) [])"

text \<open>
  \<open>delete\<close>: the row and the metadata entry are removed, then the dict entry, then every
  position above the removed one is lowered by one.
\<close>

definition delete_nth :: "nat \<Rightarrow> 'a list \<Rightarrow> 'a list" where
  "delete_nth i xs = take i xs @ drop (Suc i) xs"

definition delete ::
  "'m vector_store \<Rightarrow> string \<Rightarrow> (py_error + bool) \<times> 'm vector_store"
where
  "delete s vector_id =
     (case map_of (id_to_index s) vector_id of
        None \<Rightarrow> (Inr False, s)
      | Some idx \<Rightarrow>
          (if length (vectors s) \<le> idx then (Inl IndexError, s)
           else
             (let s1 = s\<lparr>vectors := delete_nth idx (vectors s)\<rparr> in
              if length (metadata s1) \<le> idx then (Inl IndexError, s1)
              else
                (let s2 = s1\<lparr>metadata := delete_nth idx (metadata s1)\<rparr>;
                     m = AList.delete vector_id (id_to_index s2)
                 in (Inr True,
                     s2\<lparr>id_to_index :=
                          map (\<lambda>(vid, vidx). (vid, if idx < vidx then vidx - 1 else vidx)) m\<rparr>)))))"

definition clear :: "'m vector_store \<Rightarrow> 'm vector_store" where
  "clear s = s\<lparr>vectors := [], metadata := [], id_to_index := []\<rparr>"

definition get :: "'m vector_store \<Rightarrow> string \<Rightarrow> py_error + (real list \<times> 'm) option" where
  "get s vector_id =
     (case map_of (id_to_index s) vector_id of
        None \<Rightarrow> Inr None
      | Some idx \<Rightarrow>
          (if length (vectors s) \<le> idx \<or> length (metadata s) \<le> idx then Inl IndexError
           else Inr (Some (vectors s ! idx, metadata s ! idx))))"

subsection \<open>Search\<close>

text \<open>
  The cosine similarity of the query with every row. \<open>np.dot\<close> of the array with a
  one-dimensional query raises \<open>ValueError\<close> unless the rows have the query's length.
\<close>

definition similarities :: "real list list \<Rightarrow> real list \<Rightarrow> py_error + npfloat list" where
  "similarities rows query =
     (if length (hd rows) \<noteq> length query then Inl ValueError
      else Inr (map (\<lambda>row. np_dot (np_normalize row) (np_normalize query)) rows))"

text \<open>
  The threshold step returns the similarities that are kept and, beside them, the
  positions in the store they belong to (\<open>indices\<close>).
\<close>

definition apply_threshold :: "npfloat list \<Rightarrow> real option \<Rightarrow> npfloat list \<times> nat list" where
  "apply_threshold sims threshold =
     (case threshold of
        Some t \<Rightarrow> (filter (\<lambda>x. np_ge x t) sims, filter (\<lambda>i. np_ge (sims ! i) t) [0..<length sims])
      | None \<Rightarrow> (sims, [0..<length sims]))"

text \<open>
  The top-k step, on the kept similarities: \<open>argpartition\<close> with \<open>-top_k\<close>, the slice
  \<open>[-top_k:]\<close>, the slice sorted and reversed; or, when no more than \<open>top_k\<close> are kept,
  all of them sorted and reversed.
\<close>

definition top_k_indices :: "npfloat list \<Rightarrow> int \<Rightarrow> py_error + nat list" where
  "top_k_indices sims top_k =
     (if top_k < int (length sims) then
        (case argpartition sims (- top_k) of
           Inl e \<Rightarrow> Inl e
         | Inr part \<Rightarrow>
             (let top = slice_from (- top_k) part in
              Inr (rev (map (\<lambda>i. top ! i) (argsort (map (\<lambda>i. sims ! i) top))))))
      else Inr (rev (argsort sims)))"

text \<open>\<open>{v: k for k, v in self.id_to_index.items()}\<close>: a later entry replaces an earlier one.\<close>

definition index_to_id :: "(string \<times> nat) list \<Rightarrow> (nat \<times> string) list" where
  "index_to_id m = foldl (\<lambda>d (k, v). AList.update v k d) [] m"

fun build_results ::
  "'m vector_store \<Rightarrow> nat list \<Rightarrow> npfloat list \<Rightarrow> nat list
     \<Rightarrow> py_error + (string \<times> npfloat \<times> 'm) list"
where
  "build_results s indices sims [] = Inr []"
| "build_results s indices sims (idx # rest) =
     (if length indices \<le> idx \<or> length sims \<le> idx then Inl IndexError
      else
        (let actual_idx = indices ! idx in
         case map_of (index_to_id (id_to_index s)) actual_idx of
           None \<Rightarrow> Inl KeyError
         | Some vector_id \<Rightarrow>
             (if length (metadata s) \<le> actual_idx then Inl IndexError
              else case build_results s indices sims rest of
                Inl e \<Rightarrow> Inl e
              | Inr results \<Rightarrow> Inr ((vector_id, sims ! idx, metadata s ! actual_idx) # results))))"

definition search ::
  "'m vector_store \<Rightarrow> real list \<Rightarrow> int \<Rightarrow> real option
     \<Rightarrow> py_error + (string \<times> npfloat \<times> 'm) list"
where
  "search s query_vector top_k threshold =
     (if length (vectors s) = 0 then Inr []
      else case similarities (vectors s) query_vector of
        Inl e \<Rightarrow> Inl e
      | Inr sims0 \<Rightarrow>
          (case apply_threshold sims0 threshold of
             (sims, indices) \<Rightarrow>
               (case top_k_indices sims top_k of
                  Inl e \<Rightarrow> Inl e
                | Inr top_indices \<Rightarrow> build_results s indices sims top_indices)))"

subsection \<open>Search over what numpy leaves open\<close>

text \<open>
  Three results of numpy are not fixed by the values the code passes in: the doubles of
  the similarity array (lines 127 to 129 round at every step), the order \<open>np.argsort\<close>
  gives to equal values (the default sort is not stable), and the order inside the two
  parts of \<open>np.argpartition\<close>. A \<open>numpy\<close> holds one choice of the three; \<open>numpy_ok\<close> is
  what numpy promises of them. \<open>argpartition_np\<close> takes \<open>kth\<close> counted from the start.
\<close>

record numpy =
  cosines :: "real list list \<Rightarrow> real list \<Rightarrow> npfloat list"
  argsort_np :: "npfloat list \<Rightarrow> nat list"
  argpartition_np :: "npfloat list \<Rightarrow> nat \<Rightarrow> nat list"

text \<open>The positions of \<open>xs\<close>, each once, in ascending order of their values, NaN last.\<close>

definition is_argsort :: "npfloat list \<Rightarrow> nat list \<Rightarrow> bool" where
  "is_argsort xs p \<longleftrightarrow>
     distinct p \<and> set p = {0..<length xs} \<and> sorted (map (\<lambda>i. np_key (xs ! i)) p)"

text \<open>
  The positions of \<open>xs\<close>, each once, with no larger value before place \<open>kth\<close> and no
  smaller value after it.
\<close>

definition is_argpartition :: "npfloat list \<Rightarrow> nat \<Rightarrow> nat list \<Rightarrow> bool" where
  "is_argpartition xs kth p \<longleftrightarrow>
     distinct p \<and> set p = {0..<length xs} \<and>
     list_all (\<lambda>i. np_key (xs ! (p ! i)) \<le> np_key (xs ! (p ! kth))) [0..<kth] \<and>
     list_all (\<lambda>i. np_key (xs ! (p ! kth)) \<le> np_key (xs ! (p ! i))) [kth..<length xs]"

definition numpy_ok :: "numpy \<Rightarrow> bool" where
  "numpy_ok np \<longleftrightarrow>
     (\<forall>rows q. length (cosines np rows q) = length rows) \<and>
     (\<forall>xs. is_argsort xs (argsort_np np xs)) \<and>
     (\<forall>xs kth. kth < length xs \<longrightarrow> is_argpartition xs kth (argpartition_np np xs kth))"

definition similarities_with ::
  "numpy \<Rightarrow> real list list \<Rightarrow> real list \<Rightarrow> py_error + npfloat list"
where
  "similarities_with np rows query =
     (if length (hd rows) \<noteq> length query then Inl ValueError
      else Inr (cosines np rows query))"

definition top_k_indices_with :: "numpy \<Rightarrow> npfloat list \<Rightarrow> int \<Rightarrow> py_error + nat list" where
  "top_k_indices_with np sims top_k =
     (if top_k < int (length sims) then
        (let n = int (length sims);
             kth = (if - top_k < 0 then - top_k + n else - top_k)
         in if kth < 0 \<or> n \<le> kth then Inl ValueError
            else
              (let top = slice_from (- top_k) (argpartition_np np sims (nat kth)) in
               Inr (rev (map (\<lambda>i. top ! i) (argsort_np np (map (\<lambda>i. sims ! i) top))))))
      else Inr (rev (argsort_np np sims)))"

definition search_with ::
  "numpy \<Rightarrow> 'm vector_store \<Rightarrow> real list \<Rightarrow> int \<Rightarrow> real option
     \<Rightarrow> py_error + (string \<times> npfloat \<times> 'm) list"
where
  "search_with np s query_vector top_k threshold =
     (if length (vectors s) = 0 then Inr []
      else case similarities_with np (vectors s) query_vector of
        Inl e \<Rightarrow> Inl e
      | Inr sims0 \<Rightarrow>
          (case apply_threshold sims0 threshold of
             (sims, indices) \<Rightarrow>
               (case top_k_indices_with np sims top_k of
                  Inl e \<Rightarrow> Inl e
                | Inr top_indices \<Rightarrow> build_results s indices sims top_indices)))"

text \<open>
  Two choices that keep numpy's promises. Both compute the similarities in exact
  arithmetic. \<open>numpy_stable\<close> leaves equal values in the order of their positions, and
  \<open>search\<close> above is \<open>search_with numpy_stable\<close>; \<open>numpy_reverse\<close> leaves them in the
  opposite order.
\<close>

definition numpy_stable :: numpy where
  "numpy_stable =
     \<lparr>cosines = (\<lambda>rows q. map (\<lambda>row. np_dot (np_normalize row) (np_normalize q)) rows),
      argsort_np = argsort,
      argpartition_np = (\<lambda>xs kth. argsort xs)\<rparr>"

definition argsort_reverse :: "npfloat list \<Rightarrow> nat list" where
  "argsort_reverse xs = sort_key (\<lambda>i. np_key (xs ! i)) (rev [0..<length xs])"

definition numpy_reverse :: numpy where
  "numpy_reverse =
     \<lparr>cosines = (\<lambda>rows q. map (\<lambda>row. np_dot (np_normalize row) (np_normalize q)) rows),
      argsort_np = argsort_reverse,
      argpartition_np = (\<lambda>xs kth. argsort_reverse xs)\<rparr>"

subsection \<open>Persistence\<close>

text \<open>
  What \<open>save\<close> writes and \<open>load\<close> reads: the JSON object with its four fields. Files that
  lack a field or hold values of other types are outside the model.
\<close>

record 'm persisted =
  p_dimension :: int
  p_vectors :: "real list list"
  p_metadata :: "'m list"
  p_id_to_index :: "(string \<times> nat) list"

definition save :: "'m vector_store \<Rightarrow> 'm persisted" where
  "save s = \<lparr>p_dimension = dimension s, p_vectors = vectors s,
             p_metadata = metadata s, p_id_to_index = id_to_index s\<rparr>"

text \<open>\<open>np.array\<close> of a list of rows: rows of different lengths raise \<open>ValueError\<close>.\<close>

definition rectangular :: "real list list \<Rightarrow> bool" where
  "rectangular rows = list_all (\<lambda>row. length row = length (hd rows)) rows"

text \<open>
  \<open>load\<close>: \<open>None\<close> stands for a path that does not exist, which leaves the store as it is.
  Otherwise the four fields are assigned in order, with no check between them.
\<close>

definition load ::
  "'m vector_store \<Rightarrow> 'm persisted option \<Rightarrow> (py_error + unit) \<times> 'm vector_store"
where
  "load s file =
     (case file of
        None \<Rightarrow> (Inr (), s)
      | Some data \<Rightarrow>
          (let s1 = s\<lparr>dimension := p_dimension data\<rparr> in
           if \<not> rectangular (p_vectors data) then (Inl ValueError, s1)
           else (Inr (), s1\<lparr>vectors := p_vectors data,
                             metadata := p_metadata data,
                             id_to_index := p_id_to_index data\<rparr>)))"

subsection \<open>Consistency of the store\<close>

text \<open>
  The three collections agree: as many rows as metadata entries as dict entries (the keys
  of a dict are distinct), and the dict's values are the positions \<open>0..size-1\<close>, each once.
\<close>

definition consistent :: "'m vector_store \<Rightarrow> bool" where
  "consistent s \<longleftrightarrow>
     length (vectors s) = length (metadata s) \<and>
     length (id_to_index s) = length (metadata s) \<and>
     distinct (map fst (id_to_index s)) \<and>
     distinct (map snd (id_to_index s)) \<and>
     set (map snd (id_to_index s)) = {0..<length (metadata s)}"

text \<open>
  The mutating calls of the store. A call leaves a store behind whether it returns or
  raises, and the next call runs on that store.
\<close>

datatype 'm operation =
    Add "real list" 'm "string option"
  | Add_batch "real list list" "'m list" "string list option"
  | Delete string
  | Clear

fun apply_operation :: "'m vector_store \<Rightarrow> 'm operation \<Rightarrow> 'm vector_store" where
  "apply_operation s (Add v md vid) = snd (add s v md vid)"
| "apply_operation s (Add_batch vecs mds vids) = snd (add_batch s vecs mds vids)"
| "apply_operation s (Delete vid) = snd (delete s vid)"
| "apply_operation s Clear = clear s"

text \<open>The position by which every value above a removed position moves down.\<close>

definition shift :: "nat \<Rightarrow> nat \<Rightarrow> nat" where
  "shift idx v = (if idx < v then v - 1 else v)"

section \<open>Text preprocessing (utils/preprocessing.py)\<close>

text \<open>
  A text is the list of its code points, each below 256. The three character tables are
  Python's for these code points: \<open>str.isspace\<close> (which is also \<open>\s\<close> of \<open>re\<close> and the
  separator set of \<open>str.split()\<close>), \<open>\w\<close> of \<open>re\<close>, and \<open>str.lower\<close>.
\<close>

definition is_space :: "char \<Rightarrow> bool" where
  "is_space c = (of_char c \<in> {9, 10, 11, 12, 13, 28, 29, 30, 31, 32, 133, 160 :: nat})"

definition is_word :: "char \<Rightarrow> bool" where
  "is_word c =
     (let n = of_char c :: nat in
      (48 \<le> n \<and> n \<le> 57) \<or> (65 \<le> n \<and> n \<le> 90) \<or> n = 95 \<or> (97 \<le> n \<and> n \<le> 122) \<or>
      n = 170 \<or> n = 178 \<or> n = 179 \<or> n = 181 \<or> n = 185 \<or> n = 186 \<or>
      (188 \<le> n \<and> n \<le> 190) \<or> (192 \<le> n \<and> n \<le> 214) \<or> (216 \<le> n \<and> n \<le> 246) \<or>
      (248 \<le> n \<and> n \<le> 255))"

definition lower_char :: "char \<Rightarrow> char" where
  "lower_char c =
     (let n = of_char c :: nat in
      if (65 \<le> n \<and> n \<le> 90) \<or> (192 \<le> n \<and> n \<le> 214) \<or> (216 \<le> n \<and> n \<le> 222)
      then char_of (n + 32) else c)"

definition lower :: "string \<Rightarrow> string" where
  "lower s = map lower_char s"

definition non_space :: "char \<Rightarrow> bool" where
  "non_space c = (\<not> is_space c)"

text \<open>
  \<open>re.sub(r'http\S+|www\.\S+', '', text)\<close>. A match starts where the text reads \<open>http\<close>
  or \<open>www.\<close> followed by a character that is not white space, and runs to the next white
  space or the end; the scan goes on behind it. Where no match starts, the character is
  kept and the scan moves on by one.
\<close>

definition url_match :: "string \<Rightarrow> bool" where
  "url_match s =
     ((take 4 s = ''http'' \<or> take 4 s = ''www.'') \<and> drop 4 s \<noteq> [] \<and> non_space (hd (drop 4 s)))"

function sub_url :: "string \<Rightarrow> string" where
  "sub_url [] = []"
| "sub_url (c # cs) =
     (if url_match (c # cs) then sub_url (dropWhile non_space (drop 4 (c # cs)))
      else c # sub_url cs)"
  by pat_completeness auto
termination
proof (relation "measure length")
  show "wf (measure length)" by simp
next
  fix c :: char and cs :: string
  have "length (dropWhile non_space (drop 4 (c # cs))) \<le> length (drop 4 (c # cs))"
    by (rule length_dropWhile_le)
  then show "(dropWhile non_space (drop 4 (c # cs)), c # cs) \<in> measure length"
    by simp
next
  fix c :: char and cs :: string
  show "(cs, c # cs) \<in> measure length" by simp
qed

text \<open>
  \<open>re.sub(r'\S+@\S+', '', text)\<close>. Both \<open>\S+\<close> are greedy, so a match that starts at a
  position takes the whole run of characters that are not white space from there; it
  exists when that run has an \<open>@\<close> that is neither its first nor its last character.
\<close>

definition email_match :: "string \<Rightarrow> bool" where
  "email_match s = (CHR ''@'' \<in> set (butlast (tl (takeWhile non_space s))))"

function sub_email :: "string \<Rightarrow> string" where
  "sub_email [] = []"
| "sub_email (c # cs) =
     (if email_match (c # cs) then sub_email (dropWhile non_space cs)
      else c # sub_email cs)"
  by pat_completeness auto
termination
proof (relation "measure length")
  show "wf (measure length)" by simp
next
  fix c :: char and cs :: string
  have "length (dropWhile non_space cs) \<le> length cs" by (rule length_dropWhile_le)
  then show "(dropWhile non_space cs, c # cs) \<in> measure length" by simp
next
  fix c :: char and cs :: string
  show "(cs, c # cs) \<in> measure length" by simp
qed

text \<open>\<open>re.sub(r'[^\w\s.,!?-]', '', text)\<close>: the characters of the class are removed.\<close>

definition allowed :: "char \<Rightarrow> bool" where
  "allowed c = (is_word c \<or> is_space c \<or> c \<in> set ''.,!?-'')"

definition sub_special :: "string \<Rightarrow> string" where
  "sub_special s = filter allowed s"

text \<open>\<open>text.split()\<close>: the runs of characters that are not white space.\<close>

function split :: "string \<Rightarrow> string list" where
  "split [] = []"
| "split (c # cs) =
     (if is_space c then split cs
      else takeWhile non_space (c # cs) # split (dropWhile non_space cs))"
  by pat_completeness auto
termination
proof (relation "measure length")
  show "wf (measure length)" by simp
next
  fix c :: char and cs :: string
  show "(cs, c # cs) \<in> measure length" by simp
next
  fix c :: char and cs :: string
  have "length (dropWhile non_space cs) \<le> length cs" by (rule length_dropWhile_le)
  then show "(dropWhile non_space cs, c # cs) \<in> measure length" by simp
qed

text \<open>\<open>sep.join(parts)\<close> for parts that are strings.\<close>

fun join :: "string \<Rightarrow> string list \<Rightarrow> string" where
  "join sep [] = []"
| "join sep [w] = w"
| "join sep (w # v # ws) = w @ sep @ join sep (v # ws)"

definition clean_text :: "string \<Rightarrow> string" where
  "clean_text text =
     (if text = [] then []
      else join '' '' (split (sub_special (sub_email (sub_url (lower text))))))"

text \<open>
  \<open>re.findall(r'\b\w+\b', text)\<close>: the maximal runs of word characters, since a run of
  word characters begins and ends at a word boundary and \<open>\w+\<close> is greedy.
\<close>

function word_runs :: "string \<Rightarrow> string list" where
  "word_runs [] = []"
| "word_runs (c # cs) =
     (if is_word c then takeWhile is_word (c # cs) # word_runs (dropWhile is_word cs)
      else word_runs cs)"
  by pat_completeness auto
termination
proof (relation "measure length")
  show "wf (measure length)" by simp
next
  fix c :: char and cs :: string
  have "length (dropWhile is_word cs) \<le> length cs" by (rule length_dropWhile_le)
  then show "(dropWhile is_word cs, c # cs) \<in> measure length" by simp
next
  fix c :: char and cs :: string
  show "(cs, c # cs) \<in> measure length" by simp
qed

definition tokenize :: "string \<Rightarrow> string list" where
  "tokenize text = word_runs (clean_text text)"

text \<open>The Jaccard index of the two token sets: the quotient of two counts, as a double.\<close>

definition calculate_text_similarity :: "string \<Rightarrow> string \<Rightarrow> real" where
  "calculate_text_similarity text1 text2 =
     (let tokens1 = set (tokenize text1); tokens2 = set (tokenize text2) in
      if tokens1 = {} \<or> tokens2 = {} then 0
      else round_double (real (card (tokens1 \<inter> tokens2)) / real (card (tokens1 \<union> tokens2))))"

text \<open>
  The shape of a cleaned text: words joined by single spaces, each word without white
  space, of characters the last substitution keeps and that \<open>lower\<close> leaves as they are.
\<close>

definition cleaned :: "string \<Rightarrow> bool" where
  "cleaned u \<longleftrightarrow>
     (\<exists>ws. u = join '' '' ws \<and>
           (\<forall>w \<in> set ws. w \<noteq> [] \<and> (\<forall>c \<in> set w. non_space c \<and> allowed c \<and> lower_char c = c)))"

section \<open>Dictionaries of the scoring layers\<close>

text \<open>
  The credentials, programs and metadata are dicts from keys to values of any kind: a
  string, a number, a list, or \<open>None\<close>. A key may be absent.
\<close>

datatype pyval = PNone | PStr string | PNum real | PList "pyval list"

type_synonym pydict = "string \<Rightarrow> pyval option"

text \<open>\<open>d.get(key, '').lower()\<close>: only a string has \<open>lower\<close>.\<close>

definition get_lower :: "pydict \<Rightarrow> string \<Rightarrow> py_error + string" where
  "get_lower d key =
     (case d key of
        None \<Rightarrow> Inr (lower [])
      | Some (PStr s) \<Rightarrow> Inr (lower s)
      | Some _ \<Rightarrow> Inl AttributeError)"

text \<open>\<open>d.get(key)\<close>: the value under the key, and \<open>None\<close> for a key that is absent.\<close>

definition get_or_none :: "pydict \<Rightarrow> string \<Rightarrow> pyval" where
  "get_or_none d key = (case d key of None \<Rightarrow> PNone | Some v \<Rightarrow> v)"

text \<open>
  The text a format string puts for a value: \<open>None\<close> for \<open>None\<close>, a string as it is;
  \<open>str_of\<close> stands for Python's \<open>str\<close> on a number or a list.
\<close>

definition format_value :: "(pyval \<Rightarrow> string) \<Rightarrow> pyval \<Rightarrow> string" where
  "format_value str_of v =
     (case v of PNone \<Rightarrow> ''None'' | PStr s \<Rightarrow> s | _ \<Rightarrow> str_of v)"

text \<open>The truth value of a value in a condition.\<close>

fun truthy :: "pyval \<Rightarrow> bool" where
  "truthy PNone = False"
| "truthy (PStr s) = (s \<noteq> [])"
| "truthy (PNum x) = (x \<noteq> 0)"
| "truthy (PList l) = (l \<noteq> [])"

section \<open>The level check of the credit assessor (models/credit\_assessor.py)\<close>

definition level_mapping :: "(string \<times> nat) list" where
  "level_mapping =
     [(''certificate'', 1), (''diploma'', 2), (''advanced_diploma'', 3), (''degree'', 4)]"

text \<open>\<open>self.rules['level_mapping'].get(level, 0)\<close>\<close>

definition level_num :: "string \<Rightarrow> nat" where
  "level_num l = (case map_of level_mapping l of None \<Rightarrow> 0 | Some n \<Rightarrow> n)"

text \<open>
  The dict a check returns. The message is kept as the parameters of its format string
  (the second format has an arrow between the two levels, a code point above 255).
\<close>

datatype level_message = Level_not_available | Level_compatibility string string bool

record check_result =
  met :: bool
  score :: real
  message :: level_message

definition check_level_compatibility :: "pydict \<Rightarrow> pydict \<Rightarrow> py_error + check_result" where
  "check_level_compatibility micro_credential target_program =
     (case get_lower micro_credential ''level'' of
        Inl e \<Rightarrow> Inl e
      | Inr mc_level \<Rightarrow>
          (case get_lower target_program ''level'' of
             Inl e \<Rightarrow> Inl e
           | Inr prog_level \<Rightarrow>
               (if mc_level = [] \<or> prog_level = [] then
                  Inr \<lparr>met = True, score = 0.5, message = Level_not_available\<rparr>
                else
                  (let mc_level_num = level_num mc_level;
                       prog_level_num = level_num prog_level;
                       compatible = (mc_level_num \<le> prog_level_num)
                   in Inr \<lparr>met = compatible, score = (if compatible then 1.0 else 0.5),
                            message = Level_compatibility mc_level prog_level compatible\<rparr>))))"

section \<open>The pathway recommender (models/pathway\_recommender.py)\<close>

record pathway_recommendation =
  pathway_id :: pyval
  target_program_id :: pyval
  confidence_score :: npfloat
  reasoning :: string
  similarity_score :: npfloat
  transfer_credits :: pyval
  institution_name :: pyval

text \<open>
  \<open>x > t\<close> for a float \<open>x\<close>; \<open>min(x, 1.0)\<close>, which returns \<open>x\<close> unless \<open>1.0 < x\<close>; and the
  product \<open>x * c\<close> of two doubles.
\<close>

fun np_gt :: "npfloat \<Rightarrow> real \<Rightarrow> bool" where
  "np_gt (Fin x) t = (t < x)"
| "np_gt NaN t = False"

fun min_one :: "npfloat \<Rightarrow> npfloat" where
  "min_one (Fin x) = (if 1 < x then Fin 1 else Fin x)"
| "min_one NaN = NaN"

fun times_double :: "npfloat \<Rightarrow> real \<Rightarrow> npfloat" where
  "times_double (Fin x) c = Fin (round_double (x * c))"
| "times_double NaN c = NaN"

text \<open>
  The query text: the title, the description and the learning outcomes that are present,
  joined by spaces and cleaned. \<open>' '.join\<close> raises \<open>TypeError\<close> on a part that is not a
  string.
\<close>

fun is_str :: "pyval \<Rightarrow> bool" where
  "is_str (PStr s) = True"
| "is_str _ = False"

fun the_str :: "pyval \<Rightarrow> string" where
  "the_str (PStr s) = s"
| "the_str _ = []"

definition join_values :: "string \<Rightarrow> pyval list \<Rightarrow> py_error + string" where
  "join_values sep parts =
     (if list_all is_str parts then Inr (join sep (map the_str parts)) else Inl TypeError)"

definition query_text :: "pydict \<Rightarrow> py_error + string" where
  "query_text micro_credential =
     (let text_parts =
            (case micro_credential ''title'' of None \<Rightarrow> [] | Some v \<Rightarrow> [v]) @
            (case micro_credential ''description'' of None \<Rightarrow> [] | Some v \<Rightarrow> [v]) @
            (case micro_credential ''learning_outcomes'' of
               Some (PList outcomes) \<Rightarrow> outcomes
             | Some (PStr outcomes) \<Rightarrow> [PStr outcomes]
             | _ \<Rightarrow> [])
      in case join_values '' '' text_parts of
           Inl e \<Rightarrow> Inl e
         | Inr t \<Rightarrow> Inr (clean_text t))"

text \<open>
  A credential as the request model types it: the title and the description, where
  present, are strings, and a list of learning outcomes holds strings.
\<close>

definition text_fields_typed :: "pydict \<Rightarrow> bool" where
  "text_fields_typed micro_credential =
     ((case micro_credential ''title'' of None \<Rightarrow> True | Some v \<Rightarrow> is_str v) \<and>
      (case micro_credential ''description'' of None \<Rightarrow> True | Some v \<Rightarrow> is_str v) \<and>
      (case micro_credential ''learning_outcomes'' of
         Some (PList outcomes) \<Rightarrow> list_all is_str outcomes
       | _ \<Rightarrow> True))"

text \<open>\<open>_calculate_confidence\<close>; the student profile is passed to it and not used.\<close>

definition calculate_confidence :: "npfloat \<Rightarrow> pydict \<Rightarrow> pydict \<Rightarrow> py_error + npfloat" where
  "calculate_confidence similarity source target =
     (case get_lower source ''level'' of
        Inl e \<Rightarrow> Inl e
      | Inr source_level \<Rightarrow>
     (case get_lower target ''level'' of
        Inl e \<Rightarrow> Inl e
      | Inr target_level \<Rightarrow>
     (let confidence1 =
            (if source_level \<noteq> [] \<and> target_level \<noteq> [] \<and> source_level = target_level
             then times_double similarity (round_double (11 / 10)) else similarity)
      in
     (case get_lower source ''subject'' of
        Inl e \<Rightarrow> Inl e
      | Inr source_subject \<Rightarrow>
     (case get_lower target ''subject'' of
        Inl e \<Rightarrow> Inl e
      | Inr target_subject \<Rightarrow>
     (let confidence2 =
            (if source_subject \<noteq> [] \<and> target_subject \<noteq> [] \<and>
                round_double (7 / 10) < calculate_text_similarity source_subject target_subject
             then times_double confidence1 (round_double (115 / 100)) else confidence1)
      in Inr (min_one confidence2)))))))"

text \<open>
  \<open>_generate_reasoning\<close>: the sentence for the similarity, the clause for equal levels
  (\<open>level_reasons\<close>), the clause for the subjects. The levels are compared as \<open>get\<close>
  returns them, so a level that is absent equals a level that is \<open>None\<close>, and either is
  printed as \<open>None\<close>. A subject that is true and not a string raises \<open>AttributeError\<close>
  in \<open>clean_text\<close>.
\<close>

definition mock_reasoning :: string where
  "mock_reasoning =
     ''Mock recommendation based on general subject alignment and credential level compatibility.''"

definition similarity_reason :: "npfloat \<Rightarrow> string" where
  "similarity_reason similarity =
     (if np_gt similarity (round_double (8 / 10)) then
        ''High semantic similarity in program content and learning outcomes''
      else if np_gt similarity (round_double (6 / 10)) then
        ''Moderate alignment in program objectives and outcomes''
      else ''Some overlap in subject matter and skills'')"

definition level_reasons :: "(pyval \<Rightarrow> string) \<Rightarrow> npfloat \<Rightarrow> pydict \<Rightarrow> pydict \<Rightarrow> string list" where
  "level_reasons str_of similarity source target =
     (let reasons = [similarity_reason similarity] in
      if get_or_none source ''level'' = get_or_none target ''level'' then
        reasons @
          [''Matching credential level ('' @
             format_value str_of (get_or_none source ''level'') @ '')'']
      else reasons)"

definition generate_reasoning ::
  "(pyval \<Rightarrow> string) \<Rightarrow> npfloat \<Rightarrow> pydict \<Rightarrow> pydict \<Rightarrow> py_error + string"
where
  "generate_reasoning str_of similarity source target =
     (let reasons = level_reasons str_of similarity source target;
          source_subject = (case source ''subject'' of None \<Rightarrow> PStr [] | Some v \<Rightarrow> v);
          target_subject = (case target ''subject'' of None \<Rightarrow> PStr [] | Some v \<Rightarrow> v)
      in
        if truthy source_subject \<and> truthy target_subject then
          (case (source_subject, target_subject) of
             (PStr a, PStr b) \<Rightarrow>
               Inr (join ''. ''
                      (if round_double (7 / 10) < calculate_text_similarity a b
                       then reasons @ [''Aligned subject areas''] else reasons) @ ''.'')
           | _ \<Rightarrow> Inl AttributeError)
        else Inr (join ''. '' reasons @ ''.''))"

text \<open>
  The placeholder of round \<open>i\<close> of \<open>_generate_mock_recommendations\<close>. Its confidence is
  \<open>0.85 - (i * 0.1)\<close> in doubles: the two literals, the product and the difference are
  each rounded.
\<close>

definition mock_confidence :: "nat \<Rightarrow> real" where
  "mock_confidence i =
     round_double (round_double (85 / 100) - round_double (real i * round_double (1 / 10)))"

definition mock_recommendation :: "nat \<Rightarrow> pathway_recommendation" where
  "mock_recommendation i =
     (let confidence = mock_confidence i in
      \<lparr>pathway_id = PStr (''pathway_'' @ str_nat (i + 1)),
       target_program_id = PStr (''program_'' @ str_nat (i + 1)),
       confidence_score = Fin confidence,
       reasoning = mock_reasoning,
       similarity_score = Fin confidence,
       transfer_credits = PNum (if i = 0 then 3.0 else 2.0),
       institution_name = PStr (''Institution '' @ str_nat (i + 1))\<rparr>)"

definition generate_mock_recommendations :: "int \<Rightarrow> pathway_recommendation list" where
  "generate_mock_recommendations top_k = map mock_recommendation [0..<nat (min top_k 3)]"

text \<open>The loop over the search results, which ends once \<open>top_k\<close> recommendations are built.\<close>

fun recommend_loop ::
  "(pyval \<Rightarrow> string) \<Rightarrow> pydict \<Rightarrow> string option \<Rightarrow> int
     \<Rightarrow> (string \<times> npfloat \<times> pydict) list \<Rightarrow> pathway_recommendation list
     \<Rightarrow> py_error + pathway_recommendation list"
where
  "recommend_loop str_of micro_credential target_institution_id top_k [] recommendations =
     Inr recommendations"
| "recommend_loop str_of micro_credential target_institution_id top_k
     ((vector_id, similarity, md) # results) recommendations =
     (if (case target_institution_id of None \<Rightarrow> False
          | Some t \<Rightarrow> t \<noteq> [] \<and> md ''institution_id'' \<noteq> Some (PStr t))
      then recommend_loop str_of micro_credential target_institution_id top_k results recommendations
      else
        (case calculate_confidence similarity micro_credential md of
           Inl e \<Rightarrow> Inl e
         | Inr confidence \<Rightarrow>
             (case generate_reasoning str_of similarity micro_credential md of
                Inl e \<Rightarrow> Inl e
              | Inr reasoning_text \<Rightarrow>
                  (let recommendation =
                         \<lparr>pathway_id =
                            (case md ''pathway_id'' of None \<Rightarrow> PStr vector_id | Some v \<Rightarrow> v),
                          target_program_id =
                            (case md ''program_id'' of None \<Rightarrow> PStr ''unknown'' | Some v \<Rightarrow> v),
                          confidence_score = confidence,
                          reasoning = reasoning_text,
                          similarity_score = similarity,
                          transfer_credits =
                            (case md ''credits'' of None \<Rightarrow> PNone | Some v \<Rightarrow> v),
                          institution_name =
                            (case md ''institution_name'' of None \<Rightarrow> PNone | Some v \<Rightarrow> v)\<rparr>;
                       recommendations' = recommendations @ [recommendation]
                   in if top_k \<le> int (length recommendations') then Inr recommendations'
                      else recommend_loop str_of micro_credential target_institution_id top_k
                             results recommendations'))))"

text \<open>
  \<open>recommend\<close>. \<open>encode\<close> stands for the embedding service, which maps the query text to
  a vector and is not part of the scorer; \<open>np\<close> is what numpy does in the search.
\<close>

definition recommend ::
  "numpy \<Rightarrow> (string \<Rightarrow> real list) \<Rightarrow> (pyval \<Rightarrow> string) \<Rightarrow> pydict vector_store \<Rightarrow> pydict
     \<Rightarrow> string option \<Rightarrow> int \<Rightarrow> real \<Rightarrow> py_error + pathway_recommendation list"
where
  "recommend np encode str_of vector_store micro_credential target_institution_id top_k
     min_similarity =
     (case query_text micro_credential of
        Inl e \<Rightarrow> Inl e
      | Inr query \<Rightarrow>
          (let query_embedding = encode query in
           if size_vs vector_store = 0 then Inr (generate_mock_recommendations top_k)
           else
             (case search_with np vector_store query_embedding (top_k * 2)
                     (Some min_similarity) of
                Inl e \<Rightarrow> Inl e
              | Inr results \<Rightarrow>
                  recommend_loop str_of micro_credential target_institution_id top_k
                    results [])))"

section \<open>Properties of the vector store\<close>

lemmas store_defs = add_def init_def gen_id_def str_nat.simps digit_char_def Let_def
  assign_row_def delete_def delete_nth_def size_vs_def clear_def get_def

lemmas search_defs = search_def similarities_def apply_threshold_def top_k_indices_def
  argpartition_def argsort_def slice_from_def np_normalize_def np_norm_def np_dot_def
  index_to_id_def

subsection \<open>The consistency invariant\<close>

lemma consistent_init: "consistent (init d)"
  by (simp add: consistent_def init_def)

lemma consistent_clear: "consistent (clear s)"
  by (simp add: consistent_def clear_def)

lemma update_fresh: "map_of al k = None \<Longrightarrow> AList.update k v al = al @ [(k, v)]"
  by (induction al) (auto split: if_splits)

lemma map_of_None_notin: "map_of al k = None \<Longrightarrow> k \<notin> fst ` set al"
  by (simp add: map_of_eq_None_iff)

lemma consistent_add: 
  assumes "consistent s" shows "consistent (snd (add s v md vid))"
proof -
  define i where "i = (case vid of None \<Rightarrow> gen_id (length (metadata s)) | Some i \<Rightarrow> i)"
  show ?thesis
  proof (cases "map_of (id_to_index s) i")
    case None
    then have fresh: "i \<notin> fst ` set (id_to_index s)" by (rule map_of_None_notin)
    from assms None fresh show ?thesis
      unfolding add_def i_def[symmetric] Let_def
      by (auto simp: consistent_def update_fresh atLeast0_lessThan_Suc)
  next
    case (Some idx)
    with assms show ?thesis
      unfolding add_def i_def[symmetric] Let_def
      by (auto simp: consistent_def split: sum.splits)
  qed
qed


lemma add_batch_loop_consistent:
  "consistent s \<Longrightarrow> consistent (snd (add_batch_loop s items ids))"
proof (induction items arbitrary: s ids)
  case Nil
  then show ?case by simp
next
  case (Cons item items)
  obtain v md vid where item: "item = (v, md, vid)" by (cases item) auto
  obtain r s' where a: "add s v md (Some vid) = (r, s')" by (cases "add s v md (Some vid)") auto
  have c: "consistent s'" using consistent_add[OF Cons.prems, of v md "Some vid"] a by simp
  show ?case
  proof (cases r)
    case (Inl e)
    with a c item show ?thesis by simp
  next
    case (Inr i)
    with a item Cons.IH[OF c] show ?thesis by simp
  qed
qed

lemma consistent_add_batch:
  "consistent s \<Longrightarrow> consistent (snd (add_batch s vecs mds vids))"
  by (simp add: add_batch_def add_batch_loop_consistent)

lemma length_delete_nth: "i < length xs \<Longrightarrow> length (delete_nth i xs) = length xs - 1"
  by (auto simp: delete_nth_def)

lemma shift_image: "idx < n \<Longrightarrow> shift idx ` ({0..<n} - {idx}) = {0..<n - 1}"
proof (rule set_eqI, rule iffI)
  fix x assume "idx < n" "x \<in> shift idx ` ({0..<n} - {idx})"
  then show "x \<in> {0..<n - 1}" by (auto simp: shift_def)
next
  fix x assume n: "idx < n" and x: "x \<in> {0..<n - 1}"
  show "x \<in> shift idx ` ({0..<n} - {idx})"
  proof (cases "x < idx")
    case True
    then have "shift idx x = x" "x \<in> {0..<n} - {idx}" using n by (auto simp: shift_def)
    then show ?thesis by force
  next
    case False
    then have "shift idx (Suc x) = x" "Suc x \<in> {0..<n} - {idx}" using n x by (auto simp: shift_def)
    then show ?thesis by force
  qed
qed

lemma shift_inj: "inj_on (shift idx) (A - {idx})"
  by (auto simp: inj_on_def shift_def split: if_splits)

lemma consistent_delete:
  assumes c: "consistent s" shows "consistent (snd (delete s vid))"
proof (cases "map_of (id_to_index s) vid")
  case None
  with c show ?thesis by (simp add: delete_def)
next
  case (Some idx)
  let ?m = "id_to_index s" and ?n = "length (metadata s)"
  let ?d = "AList.delete vid ?m"
  from Some have mem: "(vid, idx) \<in> set ?m" by (rule map_of_SomeD)
  from c have dk: "distinct (map fst ?m)" and dv: "distinct (map snd ?m)"
    and vs: "set (map snd ?m) = {0..<?n}" and lv: "length (vectors s) = ?n"
    and lm: "length ?m = ?n"
    by (auto simp: consistent_def)
  from mem vs have idx: "idx < ?n" by force
  have sd: "set ?d = set ?m - {(vid, idx)}"
    using dk mem by (auto simp: AList.delete_eq dest: eq_key_imp_eq_value)
  have dvd: "distinct (map snd ?d)"
    using dv by (simp add: AList.delete_eq distinct_map_filter)
  have dkd: "distinct (map fst ?d)"
    using dk by (simp add: AList.delete_eq distinct_map_filter)
  have inj: "inj_on snd (set ?m)" using dv by (simp add: distinct_map)
  have svd: "set (map snd ?d) = {0..<?n} - {idx}"
  proof -
    have "snd ` (set ?m - {(vid, idx)}) = snd ` set ?m - snd ` {(vid, idx)}"
      using inj mem by (intro inj_on_image_set_diff[of snd "set ?m"]) auto
    with sd vs show ?thesis by simp
  qed
  have ld: "length ?d = ?n - 1"
  proof -
    have "card (set (map snd ?d)) = length (map snd ?d)" using dvd by (rule distinct_card)
    moreover have "card (set (map snd ?d)) = ?n - 1" unfolding svd using idx by simp
    ultimately show ?thesis by simp
  qed
  let ?f = "\<lambda>(v, vidx). (v, if idx < vidx then vidx - 1 else vidx)"
  have fst_f: "map fst (map ?f ?d) = map fst ?d" by (induction ?d) auto
  have snd_f: "map snd (map ?f ?d) = map (shift idx) (map snd ?d)"
    unfolding shift_def by (induction ?d) auto
  have d2: "distinct (map snd (map ?f ?d))"
  proof -
    have "inj_on (shift idx) (set (map snd ?d))"
      unfolding svd by (rule shift_inj)
    with dvd have "distinct (map (shift idx) (map snd ?d))"
      by (subst distinct_map) blast
    then show ?thesis unfolding snd_f .
  qed
  have s2: "set (map snd (map ?f ?d)) = {0..<?n - 1}"
    unfolding snd_f using svd shift_image[OF idx] by (simp del: map_map)
  show ?thesis
    using Some idx lv ld d2 s2 dkd fst_f
    by (simp add: delete_def Let_def consistent_def length_delete_nth del: map_map)
qed

lemma consistent_apply: "consistent s \<Longrightarrow> consistent (apply_operation s op)"
  by (cases op) (simp_all add: consistent_add consistent_add_batch consistent_delete consistent_clear)

lemma consistent_foldl: "consistent s \<Longrightarrow> consistent (foldl apply_operation s ops)"
  by (induction ops arbitrary: s) (simp_all add: consistent_apply)

lemma consistent_get:
  assumes "consistent s" "vid \<in> fst ` set (id_to_index s)"
  shows "\<exists>idx. map_of (id_to_index s) vid = Some idx \<and> get s vid = Inr (Some (vectors s ! idx, metadata s ! idx))"
proof -
  from assms(2) obtain idx where m: "map_of (id_to_index s) vid = Some idx"
    by (metis map_of_eq_None_iff not_Some_eq)
  then have "idx \<in> set (map snd (id_to_index s))" by (force dest: map_of_SomeD)
  with assms(1) have "idx < length (metadata s)" "idx < length (vectors s)"
    by (auto simp: consistent_def)
  with m show ?thesis by (simp add: get_def)
qed

text \<open>
  C10. After any sequence of \<open>add\<close>, \<open>add_batch\<close>, \<open>delete\<close> and \<open>clear\<close> calls on a new
  store, whether the calls return or raise, the array has as many rows as there are
  metadata entries and dict entries, the dict's values are the positions \<open>0..size-1\<close> with
  none repeated, and \<open>get\<close> returns a vector and its metadata for every id in the dict.
\<close>

theorem store_consistent_after_operations:
  "consistent (foldl apply_operation (init d) ops) \<and>
   (\<forall>vid \<in> fst ` set (id_to_index (foldl apply_operation (init d) ops)).
      \<exists>r. get (foldl apply_operation (init d) ops) vid = Inr (Some r))"
proof -
  have c: "consistent (foldl apply_operation (init d) ops)"
    by (rule consistent_foldl) (rule consistent_init)
  show ?thesis
    using c consistent_get [OF c] by blast
qed

theorem store_consistent_after_operations_witness:
  "''vec_1'' \<in> fst ` set (id_to_index
      (foldl apply_operation (init 1)
         [Add [1] ''m0'' None, Add [2] ''m1'' None, Delete ''vec_0''])) \<and>
   consistent (foldl apply_operation (init 1)
         [Add [1] ''m0'' None, Add [2] ''m1'' None, Delete ''vec_0'']) \<and>
   (\<exists>r. get (foldl apply_operation (init 1)
         [Add [1] ''m0'' None, Add [2] ''m1'' None, Delete ''vec_0'']) ''vec_1'' = Inr (Some r))"
proof -
  have mem: "''vec_1'' \<in> fst ` set (id_to_index
      (foldl apply_operation (init 1)
         [Add [1] ''m0'' None, Add [2] ''m1'' None, Delete ''vec_0'']))"
    by (simp add: store_defs)
  from mem store_consistent_after_operations
         [of 1 "[Add [1] ''m0'' None, Add [2] ''m1'' None, Delete ''vec_0'']"]
  show ?thesis by blast
qed

subsection \<open>Generated ids\<close>

text \<open>
  C3. The generated id is \<open>vec_\<close> followed by the current number of records, so it is not
  new once a record has been deleted: after two inserts without id and the deletion of
  \<open>vec_0\<close>, the store holds \<open>vec_1\<close> alone, and the next insert without id is given
  \<open>vec_1\<close> again; it replaces that record, and the size stays 1.
\<close>

theorem generated_id_collides_after_delete:
  "delete (snd (add (snd (add (init 1) [1] ''m0'' None)) [2] ''m1'' None)) ''vec_0'' =
     (Inr True, \<lparr>dimension = 1, vectors = [[2]], metadata = [''m1''],
                 id_to_index = [(''vec_1'', 0)]\<rparr>) \<and>
   add \<lparr>dimension = 1, vectors = [[2]], metadata = [''m1''], id_to_index = [(''vec_1'', 0)]\<rparr>
       [3] ''m2'' None =
     (Inr ''vec_1'', \<lparr>dimension = 1, vectors = [[3]], metadata = [''m2''],
                     id_to_index = [(''vec_1'', 0)]\<rparr>) \<and>
   size_vs (snd (add \<lparr>dimension = 1, vectors = [[2]], metadata = [''m1''],
                      id_to_index = [(''vec_1'', 0)]\<rparr> [3] ''m2'' None)) = 1"
  by (simp add: store_defs)

subsection \<open>Vector lengths\<close>

text \<open>
  C1, as the claim states it, fails: a store configured with dimension 2 accepts a vector
  of length 3, and a search of the empty store with a query of length 3 returns the empty
  list.
\<close>

theorem add_accepts_other_length_counterexample:
  "add (init 2) [1, 2, 3] ''m'' None =
     (Inr ''vec_0'', \<lparr>dimension = 2, vectors = [[1, 2, 3]], metadata = [''m''],
                     id_to_index = [(''vec_0'', 0)]\<rparr>) \<and>
   search (init 2 :: string vector_store) [1, 2, 3] 5 None = Inr []"
  by (simp add: store_defs search_def)

text \<open>
  C1, amended. Neither \<open>add\<close> nor \<open>search\<close> reads the configured dimension: their results
  are the same whatever it is. A vector's length is compared only with the rows that are
  stored. On a store with no rows, \<open>add\<close> under a new id stores a vector of any length,
  and \<open>search\<close> returns the empty list for any query. On a store with rows, \<open>add\<close> under a
  new id of a vector whose length is not the rows' raises numpy's \<open>ValueError\<close> and leaves
  the store as it was, and \<open>search\<close> with a query whose length is not the rows' raises
  \<open>ValueError\<close>.
\<close>

theorem length_compared_with_rows_only:
  assumes "i = (case vid of None \<Rightarrow> gen_id (length (metadata s)) | Some x \<Rightarrow> x)"
  shows "fst (add (s\<lparr>dimension := D\<rparr>) v md vid) = fst (add s v md vid) \<and>
         search (s\<lparr>dimension := D\<rparr>) q k t = search s q k t \<and>
         (vectors s = [] \<and> map_of (id_to_index s) i = None \<longrightarrow>
            fst (add s v md vid) = Inr i \<and> vectors (snd (add s v md vid)) = [v]) \<and>
         (vectors s \<noteq> [] \<and> map_of (id_to_index s) i = None \<and> length v \<noteq> length (hd (vectors s)) \<longrightarrow>
            add s v md vid = (Inl ValueError, s)) \<and>
         (vectors s = [] \<longrightarrow> search s q k t = Inr []) \<and>
         (vectors s \<noteq> [] \<and> length q \<noteq> length (hd (vectors s)) \<longrightarrow>
            search s q k t = Inl ValueError)"
proof -
  have a: "fst (add (s\<lparr>dimension := D\<rparr>) v md vid) = fst (add s v md vid)"
    by (simp add: add_def Let_def split: option.splits sum.splits)
  have b: "search (s\<lparr>dimension := D\<rparr>) q k t = search s q k t"
  proof -
    have "build_results (s\<lparr>dimension := D\<rparr>) ix sims tops = build_results s ix sims tops"
      for ix sims tops
      by (induction tops) (simp_all add: Let_def split: option.splits sum.splits)
    then show ?thesis by (simp add: search_def split: sum.splits prod.splits)
  qed
  have c: "vectors s = [] \<and> map_of (id_to_index s) i = None \<longrightarrow>
            fst (add s v md vid) = Inr i \<and> vectors (snd (add s v md vid)) = [v]"
    using assms by (simp add: add_def Let_def)
  have d: "vectors s \<noteq> [] \<and> map_of (id_to_index s) i = None \<and> length v \<noteq> length (hd (vectors s)) \<longrightarrow>
            add s v md vid = (Inl ValueError, s)"
    using assms by (simp add: add_def Let_def)
  have e: "vectors s = [] \<longrightarrow> search s q k t = Inr []"
    by (simp add: search_def)
  have f: "vectors s \<noteq> [] \<and> length q \<noteq> length (hd (vectors s)) \<longrightarrow>
            search s q k t = Inl ValueError"
    by (simp add: search_def similarities_def)
  from a b c d e f show ?thesis by blast
qed

theorem length_compared_with_rows_only_witness:
  "add (init 2) [1, 2, 3] ''m'' None =
     (Inr ''vec_0'', \<lparr>dimension = 2, vectors = [[1, 2, 3]], metadata = [''m''],
                     id_to_index = [(''vec_0'', 0)]\<rparr>) \<and>
   fst (add \<lparr>dimension = 2, vectors = [[1, 2, 3]], metadata = [''m''],
             id_to_index = [(''vec_0'', 0)]\<rparr> [1, 2] ''n'' None) = Inl ValueError \<and>
   search (init 2 :: string vector_store) [1] 5 None = Inr [] \<and>
   search \<lparr>dimension = 2, vectors = [[1, 2, 3]], metadata = [''m''],
           id_to_index = [(''vec_0'', 0)]\<rparr> [1, 2] 5 None = Inl ValueError"
proof -
  let ?s = "\<lparr>dimension = 2, vectors = [[1, 2, 3]], metadata = [''m''],
             id_to_index = [(''vec_0'', 0)]\<rparr> :: string vector_store"
  have i0: "''vec_0'' = (case None :: string option of
               None \<Rightarrow> gen_id (length (metadata (init 2 :: string vector_store))) | Some x \<Rightarrow> x)"
    by (simp add: store_defs)
  have i1: "''vec_1'' = (case None :: string option of
               None \<Rightarrow> gen_id (length (metadata ?s)) | Some x \<Rightarrow> x)"
    by (simp add: store_defs)
  have h0: "vectors (init 2 :: string vector_store) = [] \<and>
            map_of (id_to_index (init 2 :: string vector_store)) ''vec_0'' = None"
    by (simp add: init_def)
  have h1: "vectors ?s \<noteq> [] \<and> map_of (id_to_index ?s) ''vec_1'' = None \<and>
            length [1, 2 :: real] \<noteq> length (hd (vectors ?s))"
    by simp
  from length_compared_with_rows_only [OF i0, of 2 "[1, 2, 3]" "''m''" "[1]" 5 None] h0
  have r0: "fst (add (init 2) [1, 2, 3] ''m'' None) = Inr ''vec_0'' \<and>
            vectors (snd (add (init 2) [1, 2, 3] ''m'' None)) = [[1, 2, 3]] \<and>
            search (init 2 :: string vector_store) [1] 5 None = Inr []"
    by blast
  from length_compared_with_rows_only [OF i1, of 2 "[1, 2]" "''n''" "[1, 2]" 5 None] h1
  have r1: "add ?s [1, 2] ''n'' None = (Inl ValueError, ?s) \<and>
            search ?s [1, 2] 5 None = Inl ValueError"
    by blast
  have full: "add (init 2) [1, 2, 3] ''m'' None = (Inr ''vec_0'', ?s)"
    by (simp add: store_defs)
  from r0 r1 full show ?thesis by simp
qed

subsection \<open>The number of results\<close>

text \<open>
  C2. With \<open>top_k = 0\<close> the search of a store of one record returns that record: the
  slice \<open>[-top_k:]\<close> is the slice \<open>[0:]\<close>, the whole array.
\<close>

theorem search_top_k_zero_returns_record:
  "search (snd (add (init 1) [1] ''m'' (Some ''a''))) [1] 0 None = Inr [(''a'', Fin 1, ''m'')]"
  by (simp add: store_defs search_defs)

subsection \<open>Loading\<close>

text \<open>
  C4, as the claim states it, fails: a persisted store of one vector, no metadata and an
  empty mapping is loaded without an error, and the store then has one row and size 0.
\<close>

theorem load_installs_unequal_counterexample:
  "load (init 1)
     (Some \<lparr>p_dimension = 1, p_vectors = [[1]], p_metadata = [] :: string list,
            p_id_to_index = []\<rparr>) =
     (Inr (), \<lparr>dimension = 1, vectors = [[1]], metadata = [], id_to_index = []\<rparr>)"
  by (simp add: load_def init_def rectangular_def)

text \<open>
  C4, amended. \<open>load\<close> compares no cardinalities: for every persisted store whose vectors
  have one length, it returns without an error and installs the persisted dimension,
  vectors, metadata and mapping as they are, so that saving the loaded store gives the
  persisted data back.
\<close>

theorem load_installs_without_check:
  assumes "rectangular (p_vectors data)"
  shows "load s (Some data) =
           (Inr (), \<lparr>dimension = p_dimension data, vectors = p_vectors data,
                     metadata = p_metadata data, id_to_index = p_id_to_index data\<rparr>) \<and>
         save (snd (load s (Some data))) = data"
  using assms by (simp add: load_def save_def)

theorem load_installs_without_check_witness:
  "rectangular [[1]] \<and>
   load (init 7)
     (Some \<lparr>p_dimension = 1, p_vectors = [[1]], p_metadata = [] :: string list,
            p_id_to_index = [(''a'', 3)]\<rparr>) =
     (Inr (), \<lparr>dimension = 1, vectors = [[1]], metadata = [], id_to_index = [(''a'', 3)]\<rparr>)"
proof -
  have r: "rectangular (p_vectors \<lparr>p_dimension = 1, p_vectors = [[1]],
             p_metadata = [] :: string list, p_id_to_index = [(''a'', 3)]\<rparr>)"
    by (simp add: rectangular_def)
  from load_installs_without_check [OF r, of "init 7"] r show ?thesis by simp
qed

subsection \<open>The order of the results\<close>

text \<open>The two choices of numpy's results keep numpy's promises.\<close>

lemma is_argsort_sort_key:
  assumes "distinct ys" and "set ys = {0..<length xs}"
  shows "is_argsort xs (sort_key (\<lambda>i. np_key (xs ! i)) ys)"
  using assms by (simp add: is_argsort_def)

lemma is_argsort_imp_length: "is_argsort xs p \<Longrightarrow> length p = length xs"
proof -
  assume "is_argsort xs p"
  then have "distinct p" and "set p = {0..<length xs}" by (simp_all add: is_argsort_def)
  then have "length p = card {0..<length xs}" using distinct_card [of p] by simp
  then show ?thesis by simp
qed

lemma is_argsort_imp_is_argpartition:
  assumes "is_argsort xs p" and "kth < length xs"
  shows "is_argpartition xs kth p"
proof -
  let ?f = "\<lambda>i. np_key (xs ! i)"
  from assms(1) have d: "distinct p" and s: "set p = {0..<length xs}"
    and srt: "sorted (map ?f p)" by (simp_all add: is_argsort_def)
  have len: "length p = length xs" using assms(1) by (rule is_argsort_imp_length)
  have mono: "?f (p ! i) \<le> ?f (p ! j)" if "i \<le> j" "j < length xs" for i j
  proof -
    from that len have "map ?f p ! i \<le> map ?f p ! j"
      using srt by (intro sorted_nth_mono) auto
    with that len show ?thesis by simp
  qed
  have "list_all (\<lambda>i. ?f (p ! i) \<le> ?f (p ! kth)) [0..<kth]"
    using mono assms(2) by (simp add: list_all_iff)
  moreover have "list_all (\<lambda>i. ?f (p ! kth) \<le> ?f (p ! i)) [kth..<length xs]"
    using mono by (simp add: list_all_iff)
  ultimately show ?thesis using d s by (simp add: is_argpartition_def)
qed

lemma is_argsort_argsort: "is_argsort xs (argsort xs)"
  unfolding argsort_def by (rule is_argsort_sort_key) simp_all

lemma is_argsort_argsort_reverse: "is_argsort xs (argsort_reverse xs)"
  unfolding argsort_reverse_def by (rule is_argsort_sort_key) simp_all

lemma numpy_ok_stable: "numpy_ok numpy_stable"
  by (simp add: numpy_ok_def numpy_stable_def is_argsort_argsort
        is_argsort_imp_is_argpartition)

lemma numpy_ok_reverse: "numpy_ok numpy_reverse"
  by (simp add: numpy_ok_def numpy_reverse_def is_argsort_argsort_reverse
        is_argsort_imp_is_argpartition)

lemma search_eq_search_with: "search s q top_k threshold = search_with numpy_stable s q top_k threshold"
proof -
  have "top_k_indices sims top_k = top_k_indices_with numpy_stable sims top_k" for sims
    by (simp add: top_k_indices_def top_k_indices_with_def argpartition_def numpy_stable_def Let_def)
  moreover have "similarities rows q = similarities_with numpy_stable rows q" for rows
    by (simp add: similarities_def similarities_with_def numpy_stable_def)
  ultimately show ?thesis
    by (simp add: search_def search_with_def split: sum.splits prod.splits)
qed

text \<open>The results are built from the top positions one by one.\<close>

lemma build_results_nth:
  assumes "build_results s indices sims tops = Inr rs"
  shows "length rs = length tops \<and>
         (\<forall>i < length tops.
            fst (snd (rs ! i)) = sims ! (tops ! i) \<and>
            map_of (index_to_id (id_to_index s)) (indices ! (tops ! i)) = Some (fst (rs ! i)))"
  using assms
proof (induction tops arbitrary: rs)
  case Nil
  then show ?case by simp
next
  case (Cons idx tops)
  from Cons.prems obtain vid rest where
    vid: "map_of (index_to_id (id_to_index s)) (indices ! idx) = Some vid"
    and rest: "build_results s indices sims tops = Inr rest"
    and rs: "rs = (vid, sims ! idx, metadata s ! (indices ! idx)) # rest"
    by (auto simp: Let_def split: if_splits option.splits sum.splits)
  from Cons.IH [OF rest] have ih: "length rest = length tops"
    "\<And>i. i < length tops \<Longrightarrow> fst (snd (rest ! i)) = sims ! (tops ! i) \<and>
            map_of (index_to_id (id_to_index s)) (indices ! (tops ! i)) = Some (fst (rest ! i))"
    by auto
  show ?case
  proof (intro conjI allI impI)
    show "length rs = length (idx # tops)" using rs ih(1) by simp
  next
    fix i assume "i < length (idx # tops)"
    then show "fst (snd (rs ! i)) = sims ! ((idx # tops) ! i)"
      using rs vid ih(2) by (cases i) auto
  next
    fix i assume "i < length (idx # tops)"
    then show "map_of (index_to_id (id_to_index s)) (indices ! ((idx # tops) ! i)) = Some (fst (rs ! i))"
      using rs vid ih(2) by (cases i) auto
  qed
qed

lemma search_with_unfold:
  assumes "search_with np s q k t = Inr rs" and "rs \<noteq> []"
  obtains sims indices tops where
    "top_k_indices_with np sims k = Inr tops"
    "build_results s indices sims tops = Inr rs"
  using assms
  by (auto simp: search_with_def split: if_splits sum.splits prod.splits)

text \<open>
  The top positions, read backwards, are in ascending order of their similarities, for
  every result of \<open>argsort\<close> and \<open>argpartition\<close> that numpy can give.
\<close>

lemma top_k_indices_with_sorted:
  assumes "numpy_ok np" and "top_k_indices_with np sims top_k = Inr tops"
  shows "sorted (map (\<lambda>i. np_key (sims ! i)) (rev tops))"
proof (cases "top_k < int (length sims)")
  case True
  define kth where "kth = (if - top_k < 0 then - top_k + int (length sims) else - top_k)"
  define part where "part = slice_from (- top_k) (argpartition_np np sims (nat kth))"
  define ys where "ys = map (\<lambda>i. sims ! i) part"
  define p where "p = argsort_np np ys"
  from assms(2) True have tops: "tops = rev (map (\<lambda>i. part ! i) p)"
    by (auto simp: top_k_indices_with_def Let_def kth_def part_def ys_def p_def split: if_splits)
  from assms(1) have a: "is_argsort ys p" by (simp add: numpy_ok_def p_def)
  then have srt: "sorted (map (\<lambda>i. np_key (ys ! i)) p)" and sp: "set p = {0..<length ys}"
    by (simp_all add: is_argsort_def)
  have eq: "map (\<lambda>i. np_key (sims ! (part ! i))) p = map (\<lambda>i. np_key (ys ! i)) p"
    using sp by (intro map_cong) (auto simp: ys_def)
  from srt have "sorted (map (\<lambda>i. np_key (sims ! (part ! i))) p)" by (simp only: eq)
  then show ?thesis unfolding tops by (simp add: comp_def)
next
  case False
  with assms(2) have "tops = rev (argsort_np np sims)" by (simp add: top_k_indices_with_def)
  moreover from assms(1) have "is_argsort sims (argsort_np np sims)" by (simp add: numpy_ok_def)
  ultimately show ?thesis by (simp add: is_argsort_def)
qed

lemma top_k_indices_with_length:
  assumes "numpy_ok np" and "top_k_indices_with np sims top_k = Inr tops" and "0 < top_k"
  shows "int (length tops) \<le> top_k"
proof (cases "top_k < int (length sims)")
  case True
  define kth where "kth = (if - top_k < 0 then - top_k + int (length sims) else - top_k)"
  define whole where "whole = argpartition_np np sims (nat kth)"
  define part where "part = slice_from (- top_k) whole"
  define ys where "ys = map (\<lambda>i. sims ! i) part"
  define p where "p = argsort_np np ys"
  from assms(2) True have tops: "tops = rev (map (\<lambda>i. part ! i) p)"
    by (auto simp: top_k_indices_with_def Let_def kth_def whole_def part_def ys_def p_def
          split: if_splits)
  from assms(3) True have k: "nat kth < length sims" by (simp add: kth_def)
  with assms(1) have "is_argpartition sims (nat kth) whole" by (simp add: numpy_ok_def whole_def)
  then have "distinct whole" and "set whole = {0..<length sims}"
    by (simp_all add: is_argpartition_def)
  then have "length whole = card {0..<length sims}" using distinct_card [of whole] by simp
  then have lw: "length whole = length sims" by simp
  have "nat (int (length sims) + - top_k) = length sims - nat top_k"
    using assms(3) by linarith
  then have "length part = nat top_k"
    using assms(3) True lw by (simp add: part_def slice_from_def)
  moreover from assms(1) have "is_argsort ys p" by (simp add: numpy_ok_def p_def)
  then have "length p = length ys" by (rule is_argsort_imp_length)
  ultimately show ?thesis using tops assms(3) by (simp add: ys_def)
next
  case False
  with assms(2) have "tops = rev (argsort_np np sims)" by (simp add: top_k_indices_with_def)
  moreover from assms(1) have "is_argsort sims (argsort_np np sims)" by (simp add: numpy_ok_def)
  then have "length (argsort_np np sims) = length sims" by (rule is_argsort_imp_length)
  ultimately show ?thesis using False by simp
qed

lemma search_with_length_le:
  assumes "numpy_ok np" and "0 < k" and "search_with np s q k t = Inr rs"
  shows "int (length rs) \<le> k"
proof (cases "rs = []")
  case True
  with assms(2) show ?thesis by simp
next
  case False
  with assms(3) obtain sims indices tops where
    tops: "top_k_indices_with np sims k = Inr tops" and
    rs: "build_results s indices sims tops = Inr rs"
    by (rule search_with_unfold)
  from build_results_nth [OF rs] have "length rs = length tops" by simp
  with top_k_indices_with_length [OF assms(1) tops assms(2)] show ?thesis by simp
qed

lemma search_length_le:
  assumes "0 < k" and "search s q k t = Inr rs"
  shows "int (length rs) \<le> k"
  using search_with_length_le [OF numpy_ok_stable assms(1)] assms(2)
  by (simp add: search_eq_search_with)

text \<open>
  C9, as the claim states it, fails. With a zero vector in the store the results begin
  with a NaN, which is not \<open>>=\<close> the 1.0 after it; no two values are equal there, so this
  is the result whatever numpy does with equal values. And of two records whose
  similarity to the query is exactly 1.0, the one inserted later comes first when numpy's
  sort leaves equal values in the order of their positions, which it may.
\<close>

theorem search_order_counterexample:
  "search_with numpy_stable
       (snd (add (snd (add (init 1) [0] ''m0'' (Some ''a''))) [1] ''m1'' (Some ''b'')))
       [1] 5 None =
     Inr [(''a'', NaN, ''m0''), (''b'', Fin 1, ''m1'')] \<and>
   search_with numpy_reverse
       (snd (add (snd (add (init 1) [0] ''m0'' (Some ''a''))) [1] ''m1'' (Some ''b'')))
       [1] 5 None =
     Inr [(''a'', NaN, ''m0''), (''b'', Fin 1, ''m1'')] \<and>
   \<not> np_ge NaN 1 \<and>
   numpy_ok numpy_stable \<and>
   search_with numpy_stable
       (snd (add (snd (add (init 1) [1] ''m0'' (Some ''a''))) [2] ''m1'' (Some ''b'')))
       [1] 5 None =
     Inr [(''b'', Fin 1, ''m1''), (''a'', Fin 1, ''m0'')]"
proof -
  have a: "search (snd (add (snd (add (init 1) [1] ''m0'' (Some ''a''))) [2] ''m1'' (Some ''b'')))
             [1] 5 None = Inr [(''b'', Fin 1, ''m1''), (''a'', Fin 1, ''m0'')]"
    by (simp add: store_defs search_defs)
  have b: "search (snd (add (snd (add (init 1) [0] ''m0'' (Some ''a''))) [1] ''m1'' (Some ''b'')))
             [1] 5 None = Inr [(''a'', NaN, ''m0''), (''b'', Fin 1, ''m1'')]"
    by (simp add: store_defs search_defs less_eq_prod_def)
  have c: "search_with numpy_reverse
             (snd (add (snd (add (init 1) [0] ''m0'' (Some ''a''))) [1] ''m1'' (Some ''b'')))
             [1] 5 None = Inr [(''a'', NaN, ''m0''), (''b'', Fin 1, ''m1'')]"
    by (simp add: store_defs search_with_def similarities_with_def apply_threshold_def
          top_k_indices_with_def numpy_reverse_def argsort_reverse_def np_normalize_def
          np_norm_def np_dot_def index_to_id_def upt_rec less_eq_prod_def)
  from a b c numpy_ok_stable show ?thesis by (simp add: search_eq_search_with)
qed

text \<open>
  The order of two records of equal similarity is open: with the other choice of what
  \<open>argsort\<close> does with equal values, the record inserted earlier comes first.
\<close>

lemma search_tie_earlier_first:
  "numpy_ok numpy_reverse \<and>
   search_with numpy_reverse
       (snd (add (snd (add (init 1) [1] ''m0'' (Some ''a''))) [2] ''m1'' (Some ''b'')))
       [1] 5 None =
     Inr [(''a'', Fin 1, ''m0''), (''b'', Fin 1, ''m1'')]"
proof -
  have "search_with numpy_reverse
       (snd (add (snd (add (init 1) [1] ''m0'' (Some ''a''))) [2] ''m1'' (Some ''b'')))
       [1] 5 None =
     Inr [(''a'', Fin 1, ''m0''), (''b'', Fin 1, ''m1'')]"
    by (simp add: store_defs search_with_def similarities_with_def apply_threshold_def
          top_k_indices_with_def numpy_reverse_def argsort_reverse_def np_normalize_def
          np_norm_def np_dot_def index_to_id_def upt_rec)
  with numpy_ok_reverse show ?thesis by simp
qed

text \<open>
  C9, amended. For every index state and query, and for every result that numpy's
  \<open>argsort\<close> and \<open>argpartition\<close> can give and every rounding of the similarities, the
  results are in descending order of similarity wherever the similarities are numbers: of
  two results with numbers as similarities, the earlier has a similarity \<open>>=\<close> the later's.
  Nothing is said of a NaN (a zero vector) or of the order of two records with equal
  similarity, which the code leaves to numpy's sort.
\<close>

theorem search_results_descending:
  assumes "numpy_ok np" and "search_with np s q top_k threshold = Inr rs"
    and "i < j" and "j < length rs"
    and "fst (snd (rs ! i)) = Fin x" and "fst (snd (rs ! j)) = Fin y"
  shows "y \<le> x"
proof -
  from assms(4) have "rs \<noteq> []" by auto
  with assms(2) obtain sims indices tops where
    tops: "top_k_indices_with np sims top_k = Inr tops" and
    rs: "build_results s indices sims tops = Inr rs"
    by (rule search_with_unfold)
  from build_results_nth [OF rs]
  have lr: "length rs = length tops"
    and nth: "\<And>n. n < length tops \<Longrightarrow> fst (snd (rs ! n)) = sims ! (tops ! n)"
    by auto
  let ?ks = "map (\<lambda>i. np_key (sims ! i)) tops"
  have "sorted (rev ?ks)"
    using top_k_indices_with_sorted [OF assms(1) tops] by (simp add: rev_map)
  moreover have "i \<le> j" "j < length ?ks" using assms(3,4) lr by simp_all
  ultimately have "?ks ! j \<le> ?ks ! i" by (rule sorted_rev_nth_mono)
  then have "np_key (sims ! (tops ! j)) \<le> np_key (sims ! (tops ! i))"
    using assms(3,4) lr by simp
  with nth [of i] nth [of j] assms(3,4,5,6) lr have "np_key (Fin y) \<le> np_key (Fin x)"
    by simp
  then show ?thesis by (simp add: less_eq_prod_def)
qed

theorem search_results_descending_witness:
  "numpy_ok numpy_stable \<and>
   search_with numpy_stable
       \<lparr>dimension = 1, vectors = [[-1], [1]], metadata = [''m0'', ''m1''],
        id_to_index = [(''a'', 0), (''b'', 1)]\<rparr> [1] 5 None =
     Inr [(''b'', Fin 1, ''m1''), (''a'', Fin (- 1), ''m0'')] \<and>
   (0 :: nat) < 1 \<and> 1 < length [(''b'', Fin 1, ''m1''), (''a'', Fin (- 1), ''m0'')] \<and>
   (- 1 :: real) \<le> 1"
proof -
  let ?s = "\<lparr>dimension = 1, vectors = [[-1], [1]], metadata = [''m0'', ''m1''],
             id_to_index = [(''a'', 0), (''b'', 1)]\<rparr> :: string vector_store"
  let ?rs = "[(''b'', Fin 1, ''m1''), (''a'', Fin (- 1), ''m0'')]"
  have r: "search_with numpy_stable ?s [1] 5 None = Inr ?rs"
    unfolding search_eq_search_with [symmetric]
    by (simp add: search_defs Let_def less_eq_prod_def)
  have ij: "(0 :: nat) < 1" "1 < length ?rs" by simp_all
  have x: "fst (snd (?rs ! 0)) = Fin 1" and y: "fst (snd (?rs ! 1)) = Fin (- 1)" by simp_all
  from search_results_descending [OF numpy_ok_stable r ij x y] numpy_ok_stable r
  show ?thesis by simp
qed


section \<open>Properties of text cleaning\<close>

lemmas text_defs = clean_text_def lower_def lower_char_def url_match_def email_match_def
  sub_special_def allowed_def is_word_def is_space_def non_space_def char_of_eq_iff

lemma set_sub_url: "set (sub_url s) \<subseteq> set s"
proof (induction s rule: sub_url.induct)
  case 1
  then show ?case by simp
next
  case (2 c cs)
  show ?case
  proof (cases "url_match (c # cs)")
    case True
    have "set (dropWhile non_space (drop 4 (c # cs))) \<subseteq> set (c # cs)"
      using set_dropWhileD set_drop_subset by fastforce
    with True 2(1) show ?thesis by auto
  next
    case False
    with 2(2) show ?thesis by auto
  qed
qed

lemma set_sub_email: "set (sub_email s) \<subseteq> set s"
proof (induction s rule: sub_email.induct)
  case 1
  then show ?case by simp
next
  case (2 c cs)
  show ?case
  proof (cases "email_match (c # cs)")
    case True
    have "set (dropWhile non_space cs) \<subseteq> set cs"
      using set_dropWhileD by fastforce
    with True 2(1) show ?thesis by auto
  next
    case False
    with 2(2) show ?thesis by auto
  qed
qed

lemma length_sub_url: "length (sub_url s) \<le> length s"
proof (induction s rule: sub_url.induct)
  case 1
  then show ?case by simp
next
  case (2 c cs)
  show ?case
  proof (cases "url_match (c # cs)")
    case True
    have "length (dropWhile non_space (drop 4 (c # cs))) \<le> length (drop 4 (c # cs))"
      by (rule length_dropWhile_le)
    with True 2(1) show ?thesis by simp
  next
    case False
    with 2(2) show ?thesis by simp
  qed
qed

lemma sub_url_shorter: "sub_url s \<noteq> s \<Longrightarrow> length (sub_url s) < length s"
proof (induction s rule: sub_url.induct)
  case 1
  then show ?case by simp
next
  case (2 c cs)
  show ?case
  proof (cases "url_match (c # cs)")
    case True
    have "length (dropWhile non_space (drop 4 (c # cs))) \<le> length (drop 4 (c # cs))"
      by (rule length_dropWhile_le)
    moreover have "length (sub_url (dropWhile non_space (drop 4 (c # cs))))
                     \<le> length (dropWhile non_space (drop 4 (c # cs)))"
      by (rule length_sub_url)
    ultimately show ?thesis using True by simp
  next
    case False
    with 2(2,3) show ?thesis by simp
  qed
qed

lemma length_sub_email: "length (sub_email s) \<le> length s"
proof (induction s rule: sub_email.induct)
  case 1
  then show ?case by simp
next
  case (2 c cs)
  show ?case
  proof (cases "email_match (c # cs)")
    case True
    have "length (dropWhile non_space cs) \<le> length cs" by (rule length_dropWhile_le)
    with True 2(1) show ?thesis by simp
  next
    case False
    with 2(2) show ?thesis by simp
  qed
qed

lemma sub_email_id: "CHR ''@'' \<notin> set s \<Longrightarrow> sub_email s = s"
proof (induction s rule: sub_email.induct)
  case 1
  then show ?case by simp
next
  case (2 c cs)
  have "x \<in> set (c # cs)" if "x \<in> set (butlast (tl (takeWhile non_space (c # cs))))" for x
  proof -
    from that have "x \<in> set (tl (takeWhile non_space (c # cs)))" by (rule in_set_butlastD)
    then have "x \<in> set (takeWhile non_space (c # cs))"
      by (cases "takeWhile non_space (c # cs)") simp_all
    then show ?thesis by (rule set_takeWhileD [THEN conjunct1])
  qed
  with 2(3) have m: "\<not> email_match (c # cs)" unfolding email_match_def by blast
  from 2(3) have "CHR ''@'' \<notin> set cs" by simp
  with 2(2) m have "sub_email cs = cs" by blast
  with m show ?case by simp
qed

lemma lower_char_idem: "lower_char (lower_char c) = lower_char c"
proof -
  have n: "of_char c < (256 :: nat)" by simp
  have "of_char (char_of (of_char c + 32 :: nat)) = (of_char c + 32 :: nat)"
    if "of_char c \<le> (222 :: nat)"
    using that by simp
  then show ?thesis
    unfolding lower_char_def Let_def by auto
qed

text \<open>What \<open>split\<close> returns: runs that are not empty and hold no white space.\<close>

lemma split_words:
  "w \<in> set (split s) \<Longrightarrow> w \<noteq> [] \<and> set w \<subseteq> set s \<and> (\<forall>c \<in> set w. non_space c)"
proof (induction s rule: split.induct)
  case 1
  then show ?case by simp
next
  case (2 c cs)
  show ?case
  proof (cases "is_space c")
    case True
    with 2 show ?thesis by auto
  next
    case False
    from 2(3) False have "w = takeWhile non_space (c # cs) \<or> w \<in> set (split (dropWhile non_space cs))"
      by simp
    then show ?thesis
    proof
      assume w: "w = takeWhile non_space (c # cs)"
      have "set (takeWhile non_space (c # cs)) \<subseteq> set (c # cs)"
        using set_takeWhileD by fastforce
      moreover have "\<forall>x \<in> set (takeWhile non_space (c # cs)). non_space x"
        using set_takeWhileD by fastforce
      ultimately show ?thesis using w False by (auto simp: non_space_def)
    next
      assume "w \<in> set (split (dropWhile non_space cs))"
      with 2(2) False have "w \<noteq> [] \<and> set w \<subseteq> set (dropWhile non_space cs) \<and> (\<forall>c \<in> set w. non_space c)"
        by simp
      moreover have "set (dropWhile non_space cs) \<subseteq> set cs"
        using set_dropWhileD by fastforce
      ultimately show ?thesis by auto
    qed
  qed
qed

lemma split_word_space:
  assumes "w \<noteq> []" and "\<forall>c \<in> set w. non_space c"
  shows "split (w @ CHR '' '' # r) = w # split r"
proof -
  from assms(1) obtain c w' where w: "w = c # w'" by (cases w) auto
  have sp: "\<not> non_space CHR '' ''" by (simp add: non_space_def is_space_def)
  have tw: "takeWhile non_space (w @ CHR '' '' # r) = w"
    using assms(2) sp by simp
  have dw: "dropWhile non_space (w' @ CHR '' '' # r) = CHR '' '' # r"
    using assms(2) sp w by simp
  have c: "\<not> is_space c" using assms(2) w by (simp add: non_space_def)
  have "split (c # (w' @ CHR '' '' # r)) =
          takeWhile non_space (c # (w' @ CHR '' '' # r)) # split (dropWhile non_space (w' @ CHR '' '' # r))"
    using c by simp
  with tw dw w sp show ?thesis by (simp add: non_space_def)
qed

lemma split_word:
  assumes "w \<noteq> []" and "\<forall>c \<in> set w. non_space c"
  shows "split w = [w]"
proof -
  from assms(1) obtain c w' where w: "w = c # w'" by (cases w) auto
  have c: "\<not> is_space c" using assms(2) w by (simp add: non_space_def)
  have t: "takeWhile non_space (c # w') = c # w'"
    using assms(2) w by simp
  have d: "dropWhile non_space w' = []" using assms(2) w by simp
  have d': "split (dropWhile non_space w') = []" unfolding d by simp
  have "split (c # w') = takeWhile non_space (c # w') # split (dropWhile non_space w')"
    using c by simp
  then show ?thesis unfolding t d' w .
qed

lemma split_join:
  "(\<forall>w \<in> set ws. w \<noteq> [] \<and> (\<forall>c \<in> set w. non_space c)) \<Longrightarrow> split (join '' '' ws) = ws"
proof (induction "'' ''" ws rule: join.induct)
  case 1
  then show ?case by simp
next
  case (2 w)
  then show ?case by (simp add: split_word)
next
  case (3 w v ws)
  then have "split (w @ CHR '' '' # join '' '' (v # ws)) = w # split (join '' '' (v # ws))"
    by (intro split_word_space) auto
  with 3 show ?case by simp
qed

lemma set_join: "set (join '' '' ws) \<subseteq> insert CHR '' '' (\<Union>w \<in> set ws. set w)"
  by (induction "'' ''" ws rule: join.induct) auto

lemma cleaned_clean_text: "cleaned (clean_text t)"
proof (cases "t = []")
  case True
  show ?thesis unfolding cleaned_def
    using True by (intro exI [of _ "[]"]) (simp add: clean_text_def)
next
  case False
  define x where "x = sub_special (sub_email (sub_url (lower t)))"
  have low: "lower_char c = c" if "c \<in> set x" for c
  proof -
    from that have "c \<in> set (sub_email (sub_url (lower t)))"
      by (simp add: x_def sub_special_def)
    then have "c \<in> set (sub_url (lower t))" using set_sub_email by blast
    then have "c \<in> set (lower t)" using set_sub_url by blast
    then obtain d where "c = lower_char d" by (auto simp: lower_def)
    then show ?thesis by (simp add: lower_char_idem)
  qed
  have al: "allowed c" if "c \<in> set x" for c
    using that by (simp add: x_def sub_special_def)
  have "w \<noteq> [] \<and> (\<forall>c \<in> set w. non_space c \<and> allowed c \<and> lower_char c = c)"
    if "w \<in> set (split x)" for w
  proof -
    from split_words [OF that]
    have "w \<noteq> []" "set w \<subseteq> set x" "\<forall>c \<in> set w. non_space c" by blast+
    with low al show ?thesis by blast
  qed
  moreover have "clean_text t = join '' '' (split x)"
    using False by (simp add: clean_text_def x_def)
  ultimately show ?thesis unfolding cleaned_def by blast
qed

lemma cleaned_fixed:
  assumes "cleaned u" and "sub_url u = u"
  shows "clean_text u = u"
proof (cases "u = []")
  case True
  then show ?thesis by (simp add: clean_text_def)
next
  case False
  from assms(1) obtain ws where u: "u = join '' '' ws"
    and ws: "\<And>w. w \<in> set ws \<Longrightarrow> w \<noteq> [] \<and> (\<forall>c \<in> set w. non_space c \<and> allowed c \<and> lower_char c = c)"
    unfolding cleaned_def by blast
  have sp: "allowed CHR '' '' \<and> lower_char CHR '' '' = CHR '' ''"
    by (simp add: allowed_def is_space_def lower_char_def)
  have chars: "allowed c \<and> lower_char c = c" if "c \<in> set u" for c
  proof -
    from that have "c \<in> set (join '' '' ws)" by (simp only: u)
    with set_join [of ws] have "c = CHR '' '' \<or> (\<exists>w \<in> set ws. c \<in> set w)" by auto
    with ws sp show ?thesis by auto
  qed
  have l: "lower u = u" unfolding lower_def using chars by (simp add: map_idI)
  have "\<not> allowed CHR ''@''" by (simp add: allowed_def is_word_def is_space_def)
  with chars have "CHR ''@'' \<notin> set u" by auto
  then have e: "sub_email u = u" by (rule sub_email_id)
  have f: "sub_special u = u" unfolding sub_special_def using chars by simp
  have "split (join '' '' ws) = ws" using ws by (intro split_join) blast
  then have g: "join '' '' (split u) = u" by (simp only: u)
  have "clean_text u = join '' '' (split (sub_special (sub_email (sub_url (lower u)))))"
    using False by (simp only: clean_text_def if_False)
  also have "\<dots> = join '' '' (split u)" by (simp only: l assms(2) e f)
  finally show ?thesis by (simp only: g)
qed

text \<open>Cleaning never makes a text longer.\<close>

lemma sum_split:
  "(\<Sum>w\<leftarrow>split s. length w + 1) \<le> length s + 1 \<and>
   (s \<noteq> [] \<and> is_space (hd s) \<longrightarrow> (\<Sum>w\<leftarrow>split s. length w + 1) \<le> length s)"
proof (induction s rule: split.induct)
  case 1
  then show ?case by simp
next
  case (2 c cs)
  show ?case
  proof (cases "is_space c")
    case True
    with 2(1) show ?thesis by simp
  next
    case False
    let ?d = "dropWhile non_space cs"
    have len: "length (takeWhile non_space cs) + length ?d = length cs"
      by (metis length_append takeWhile_dropWhile_id)
    have tw: "takeWhile non_space (c # cs) = c # takeWhile non_space cs"
      using False by (simp add: non_space_def)
    have d: "(\<Sum>w\<leftarrow>split ?d. length w + 1) \<le> length ?d"
    proof (cases "?d = []")
      case True
      show ?thesis unfolding True by simp
    next
      case nonempty: False
      then have "\<not> non_space (hd ?d)" by (rule hd_dropWhile)
      with nonempty 2(2) False show ?thesis by (simp add: non_space_def)
    qed
    from False tw d len show ?thesis by simp
  qed
qed

lemma length_join: "ws \<noteq> [] \<Longrightarrow> length (join '' '' ws) + 1 = (\<Sum>w\<leftarrow>ws. length w + 1)"
  by (induction "'' ''" ws rule: join.induct) auto

lemma length_join_split: "length (join '' '' (split s)) \<le> length s"
proof (cases "split s = []")
  case True
  then show ?thesis by simp
next
  case False
  from length_join [OF False] sum_split [of s] show ?thesis by simp
qed

lemma length_after_sub_url:
  "length (join '' '' (split (sub_special (sub_email s)))) \<le> length s"
proof -
  have "length (join '' '' (split (sub_special (sub_email s)))) \<le> length (sub_special (sub_email s))"
    by (rule length_join_split)
  also have "\<dots> \<le> length (sub_email s)" by (simp add: sub_special_def)
  also have "\<dots> \<le> length s" by (rule length_sub_email)
  finally show ?thesis .
qed

lemma cleaned_lower: "cleaned u \<Longrightarrow> lower u = u"
proof -
  assume "cleaned u"
  then obtain ws where u: "u = join '' '' ws"
    and ws: "\<And>w. w \<in> set ws \<Longrightarrow> (\<forall>c \<in> set w. lower_char c = c)"
    unfolding cleaned_def by blast
  have "lower_char c = c" if "c \<in> set u" for c
  proof -
    from that have "c \<in> set (join '' '' ws)" by (simp only: u)
    with set_join [of ws] have "c = CHR '' '' \<or> (\<exists>w \<in> set ws. c \<in> set w)" by auto
    with ws show ?thesis by (auto simp: lower_char_def)
  qed
  then show ?thesis by (simp add: lower_def map_idI)
qed

lemma cleaned_not_fixed:
  assumes "cleaned u" and "sub_url u \<noteq> u"
  shows "clean_text u \<noteq> u"
proof -
  from assms(2) have ne: "u \<noteq> []" by auto
  from assms(2) have "length (sub_url u) < length u" by (rule sub_url_shorter)
  moreover have "length (clean_text u) \<le> length (sub_url u)"
    using ne cleaned_lower [OF assms(1)] length_after_sub_url [of "sub_url u"]
    by (simp add: clean_text_def)
  ultimately show ?thesis by auto
qed

text \<open>
  C7, as the claim states it, fails: removing \<open>#\<close> from \<open>ht#tpx\<close> leaves \<open>httpx\<close>, which
  a second cleaning takes for a URL and removes.
\<close>

theorem clean_text_not_idempotent_counterexample:
  "clean_text ''ht#tpx'' = ''httpx'' \<and> clean_text (clean_text ''ht#tpx'') = []"
proof -
  have a: "clean_text ''ht#tpx'' = ''httpx''" by (simp add: text_defs)
  have b: "clean_text ''httpx'' = []" by (simp add: text_defs)
  from a b show ?thesis by simp
qed

text \<open>
  C7, amended. Cleaning a cleaned text changes it exactly when the URL substitution
  changes it: \<open>clean(clean(t)) = clean(t)\<close> if and only if \<open>clean(t)\<close> holds no \<open>http\<close> and
  no \<open>www.\<close> that is followed by a character other than white space. (The removal of
  special characters comes after the removal of URLs and can form such a token.)
\<close>

theorem clean_text_idempotent_iff:
  "clean_text (clean_text t) = clean_text t \<longleftrightarrow> sub_url (clean_text t) = clean_text t"
  using cleaned_fixed [OF cleaned_clean_text, of t] cleaned_not_fixed [OF cleaned_clean_text, of t]
  by blast

theorem clean_text_idempotent_iff_witness:
  "sub_url (clean_text ''Hello,  World!'') = clean_text ''Hello,  World!'' \<and>
   clean_text (clean_text ''Hello,  World!'') = clean_text ''Hello,  World!''"
proof -
  have c: "clean_text ''Hello,  World!'' = ''hello, world!''" by (simp add: text_defs)
  have u: "sub_url ''hello, world!'' = ''hello, world!''" by (simp add: text_defs)
  from c u have h: "sub_url (clean_text ''Hello,  World!'') = clean_text ''Hello,  World!''" by simp
  from h clean_text_idempotent_iff [of "''Hello,  World!''"] show ?thesis by simp
qed

section \<open>Properties of the level check\<close>

text \<open>
  C8, as the claim states it, fails for a level that is not in the level map: such a level
  counts as ordinal 0. A credential of level \<open>phd\<close> against a program of level \<open>degree\<close>
  is met with score 1.0, not 0.5, and a credential of level \<open>degree\<close> against a program of
  level \<open>phd\<close> is not met.
\<close>

theorem level_unmapped_counterexample:
  "check_level_compatibility [''level'' \<mapsto> PStr ''phd''] [''level'' \<mapsto> PStr ''degree''] =
     Inr \<lparr>met = True, score = 1, message = Level_compatibility ''phd'' ''degree'' True\<rparr> \<and>
   check_level_compatibility [''level'' \<mapsto> PStr ''degree''] [''level'' \<mapsto> PStr ''phd''] =
     Inr \<lparr>met = False, score = 1 / 2, message = Level_compatibility ''degree'' ''phd'' False\<rparr>"
  by (simp add: check_level_compatibility_def get_lower_def level_num_def level_mapping_def
        lower_def lower_char_def char_of_eq_iff)

text \<open>
  C8, amended. For a credential and a program whose levels are strings or absent, with
  \<open>a\<close> and \<open>b\<close> the levels in lower case (empty when absent): if either is empty, the check
  is met with score 0.5; otherwise each level has its ordinal of the level map, a level
  that is not in the map has ordinal 0, the check is met if and only if the credential's
  ordinal is at most the program's, and the score is 1.0 when met and 0.5 when not.
\<close>

theorem level_compatibility_check:
  assumes "get_lower micro_credential ''level'' = Inr a"
    and "get_lower target_program ''level'' = Inr b"
  shows "\<exists>r. check_level_compatibility micro_credential target_program = Inr r \<and>
             (a = [] \<or> b = [] \<longrightarrow> met r \<and> score r = 0.5) \<and>
             (a \<noteq> [] \<and> b \<noteq> [] \<longrightarrow>
                (met r \<longleftrightarrow> level_num a \<le> level_num b) \<and>
                score r = (if met r then 1.0 else 0.5))"
  using assms by (simp add: check_level_compatibility_def Let_def)

theorem level_compatibility_check_witness:
  "(\<exists>r. check_level_compatibility [''level'' \<mapsto> PStr ''Degree''] Map.empty = Inr r \<and>
        met r \<and> score r = 0.5) \<and>
   (\<exists>r. check_level_compatibility [''level'' \<mapsto> PStr ''Degree''] [''level'' \<mapsto> PStr ''diploma'']
          = Inr r \<and>
        (met r \<longleftrightarrow> level_num ''degree'' \<le> level_num ''diploma'') \<and>
        score r = (if met r then 1.0 else 0.5))"
proof -
  have a: "get_lower [''level'' \<mapsto> PStr ''Degree''] ''level'' = Inr ''degree''"
    by (simp add: get_lower_def lower_def lower_char_def char_of_eq_iff)
  have b0: "get_lower Map.empty ''level'' = Inr []"
    by (simp add: get_lower_def lower_def)
  have b1: "get_lower [''level'' \<mapsto> PStr ''diploma''] ''level'' = Inr ''diploma''"
    by (simp add: get_lower_def lower_def lower_char_def char_of_eq_iff)
  from level_compatibility_check [OF a b0] level_compatibility_check [OF a b1]
  show ?thesis by simp
qed

section \<open>Properties of the recommender\<close>

subsection \<open>The doubles of the placeholder confidences\<close>

text \<open>A number between \<open>2\<^sup>k\<close> and \<open>2\<^sup>k\<^sup>+\<^sup>1\<close> is rounded to a multiple of \<open>2\<^sup>k\<^sup>-\<^sup>5\<^sup>2\<close>.\<close>

lemma round_double_in_binade:
  assumes "2 powi k \<le> \<bar>x\<bar>" and "\<bar>x\<bar> < 2 powi (k + 1)"
  shows "round_double x = of_int (round_half_even (x / 2 powi (k - 52))) * 2 powi (k - 52)"
proof -
  have "(0 :: real) < 2 powi k" by simp
  with assms(1) have pos: "0 < \<bar>x\<bar>" by linarith
  have a: "(2 :: real) powr real_of_int k = 2 powi k"
    by (rule powr_real_of_int') simp_all
  have b: "(2 :: real) powr (real_of_int k + 1) = 2 powi (k + 1)"
    using powr_real_of_int' [of 2 "k + 1"] by simp
  have "\<lfloor>log 2 \<bar>x\<bar>\<rfloor> = k"
    using floor_log_eq_powr_iff [of "\<bar>x\<bar>" 2 k] pos assms by (simp add: a b)
  with pos show ?thesis by (simp add: round_double_def Let_def)
qed

text \<open>The doubles of the literals \<open>0.85\<close>, \<open>0.1\<close>, \<open>0.65\<close>, \<open>0.6499999999999999\<close> and \<open>0.8\<close>.\<close>

lemma double_085: "round_double (85 / 100) = 7656119366529843 / 2 ^ 53"
  using round_double_in_binade [of "- 1" "85 / 100"]
  by (simp add: round_half_even_def)

lemma double_01: "round_double (1 / 10) = 3602879701896397 / 2 ^ 55"
  using round_double_in_binade [of "- 4" "1 / 10"]
  by (simp add: round_half_even_def)

lemma double_065: "round_double (65 / 100) = 5854679515581645 / 2 ^ 53"
  using round_double_in_binade [of "- 1" "65 / 100"]
  by (simp add: round_half_even_def)

lemma double_06499: "round_double (6499999999999999 / 10 ^ 16) = 5854679515581644 / 2 ^ 53"
  using round_double_in_binade [of "- 1" "6499999999999999 / 10 ^ 16"]
  by (simp add: round_half_even_def)

lemma double_08: "round_double (8 / 10) = 3602879701896397 / 2 ^ 52"
  using round_double_in_binade [of "- 1" "8 / 10"]
  by (simp add: round_half_even_def)

text \<open>
  The three confidences. The exact value of the third, \<open>0.85 - 0.2\<close> in doubles, lies
  halfway between two doubles, and the even one is the lower.
\<close>

lemma mock_confidence_0: "mock_confidence 0 = 7656119366529843 / 2 ^ 53"
  unfolding mock_confidence_def double_085 double_01
  using round_double_in_binade [of "- 1" "7656119366529843 / 2 ^ 53"]
  by (simp add: round_half_even_def round_double_def)

lemma mock_confidence_1: "mock_confidence 1 = 3 / 4"
proof -
  have a: "round_double (real 1 * (3602879701896397 / 2 ^ 55)) = 3602879701896397 / 2 ^ 55"
    using round_double_in_binade [of "- 4" "3602879701896397 / 2 ^ 55"]
    by (simp add: round_half_even_def)
  show ?thesis
    unfolding mock_confidence_def double_085 double_01 a
    using round_double_in_binade [of "- 1" "27021597764222975 / 2 ^ 55"]
    by (simp add: round_half_even_def)
qed

lemma mock_confidence_2: "mock_confidence 2 = 5854679515581644 / 2 ^ 53"
proof -
  have a: "round_double (real 2 * (3602879701896397 / 2 ^ 55)) = 3602879701896397 / 2 ^ 54"
    using round_double_in_binade [of "- 3" "3602879701896397 / 2 ^ 54"]
    by (simp add: round_half_even_def)
  show ?thesis
    unfolding mock_confidence_def double_085 double_01 a
    using round_double_in_binade [of "- 1" "11709359031163289 / 2 ^ 54"]
    by (simp add: round_half_even_def)
qed

subsection \<open>The reasoning texts\<close>

text \<open>A reasoning text built for a search result begins with one of three sentences.\<close>

lemma join_Cons_prefix: "\<exists>rest. join sep (w # ws) = w @ rest"
  by (cases ws) simp_all

lemma similarity_reason_not_mock:
  "take 3 (similarity_reason similarity @ rest) \<noteq> ''Moc''"
  by (simp add: similarity_reason_def)

lemma level_reasons_first:
  "\<exists>ws. level_reasons str_of similarity source target = similarity_reason similarity # ws"
  by (simp add: level_reasons_def Let_def)

lemma generate_reasoning_not_mock:
  assumes "generate_reasoning str_of similarity source target = Inr r"
  shows "r \<noteq> mock_reasoning"
proof -
  define reasons where "reasons = level_reasons str_of similarity source target"
  from level_reasons_first obtain ws where ws: "reasons = similarity_reason similarity # ws"
    unfolding reasons_def by blast
  from assms have "r = join ''. '' reasons @ ''.'' \<or>
                   r = join ''. '' (reasons @ [''Aligned subject areas'']) @ ''.''"
    unfolding generate_reasoning_def Let_def reasons_def [symmetric]
    by (auto split: if_splits pyval.splits)
  then obtain ws' where "r = join ''. '' (similarity_reason similarity # ws') @ ''.''"
    unfolding ws by auto
  moreover from join_Cons_prefix obtain rest where
    "join ''. '' (similarity_reason similarity # ws') = similarity_reason similarity @ rest"
    by blast
  ultimately have "r = similarity_reason similarity @ (rest @ ''.'')" by simp
  then have "take 3 r \<noteq> ''Moc''" by (simp only: similarity_reason_not_mock not_False_eq_True)
  moreover have "take 3 mock_reasoning = ''Moc''" by (simp add: mock_reasoning_def)
  ultimately show ?thesis by auto
qed

lemma recommend_loop_not_mock:
  assumes "recommend_loop str_of mc tid top_k results recs = Inr out"
    and "\<forall>r \<in> set recs. reasoning r \<noteq> mock_reasoning"
  shows "\<forall>r \<in> set out. reasoning r \<noteq> mock_reasoning"
  using assms
proof (induction str_of mc tid top_k results recs rule: recommend_loop.induct)
  case (1 str_of mc tid top_k recs)
  then show ?case by simp
next
  case (2 str_of mc tid top_k vector_id similarity md results recs)
  show ?case
  proof (cases "case tid of None \<Rightarrow> False | Some t \<Rightarrow> t \<noteq> [] \<and> md ''institution_id'' \<noteq> Some (PStr t)")
    case True
    with 2(1) [OF True] 2(3,4) show ?thesis by simp
  next
    case False
    from 2(3) False obtain confidence reasoning_text where
      c: "calculate_confidence similarity mc md = Inr confidence" and
      g: "generate_reasoning str_of similarity mc md = Inr reasoning_text"
      by (auto split: sum.splits)
    define rec where "rec =
      \<lparr>pathway_id = (case md ''pathway_id'' of None \<Rightarrow> PStr vector_id | Some v \<Rightarrow> v),
       target_program_id = (case md ''program_id'' of None \<Rightarrow> PStr ''unknown'' | Some v \<Rightarrow> v),
       confidence_score = confidence, reasoning = reasoning_text, similarity_score = similarity,
       transfer_credits = (case md ''credits'' of None \<Rightarrow> PNone | Some v \<Rightarrow> v),
       institution_name = (case md ''institution_name'' of None \<Rightarrow> PNone | Some v \<Rightarrow> v)\<rparr>"
    have nm: "\<forall>r \<in> set (recs @ [rec]). reasoning r \<noteq> mock_reasoning"
      using 2(4) generate_reasoning_not_mock [OF g] by (simp add: rec_def)
    show ?thesis
    proof (cases "top_k \<le> int (length (recs @ [rec]))")
      case True
      with 2(3) False c g have "out = recs @ [rec]" by (simp add: rec_def Let_def)
      with nm show ?thesis by simp
    next
      case stop: False
      with 2(3) False c g have
        "recommend_loop str_of mc tid top_k results (recs @ [rec]) = Inr out"
        by (simp add: rec_def Let_def)
      with 2(2) [OF False c g rec_def refl stop] nm
      show ?thesis by blast
    qed
  qed
qed

lemma recommend_not_mock:
  assumes "size_vs vs \<noteq> 0"
    and "recommend np encode str_of vs mc tid top_k ms = Inr recs"
  shows "\<forall>r \<in> set recs. reasoning r \<noteq> mock_reasoning"
proof -
  from assms obtain results where
    "recommend_loop str_of mc tid top_k results [] = Inr recs"
    by (auto simp: recommend_def Let_def split: sum.splits)
  then show ?thesis by (rule recommend_loop_not_mock) simp
qed

subsection \<open>The empty index\<close>

lemma upt_3: "[0..<3] = [0, 1, 2]"
  by (simp add: upt_rec)

text \<open>The query text is built exactly when the text fields are strings.\<close>

lemma text_parts_typed:
  "list_all is_str
      ((case mc ''title'' of None \<Rightarrow> [] | Some v \<Rightarrow> [v]) @
       (case mc ''description'' of None \<Rightarrow> [] | Some v \<Rightarrow> [v]) @
       (case mc ''learning_outcomes'' of
          Some (PList outcomes) \<Rightarrow> outcomes
        | Some (PStr outcomes) \<Rightarrow> [PStr outcomes]
        | _ \<Rightarrow> [])) = text_fields_typed mc"
  by (auto simp: text_fields_typed_def split: option.splits pyval.splits)

lemma query_text_typed:
  assumes "text_fields_typed mc"
  shows "\<exists>q. query_text mc = Inr q"
  using assms text_parts_typed [of mc]
  by (simp add: query_text_def join_values_def Let_def)

lemma query_text_untyped:
  assumes "\<not> text_fields_typed mc"
  shows "query_text mc = Inl TypeError"
  using assms text_parts_typed [of mc]
  by (simp add: query_text_def join_values_def Let_def)

text \<open>
  C5, as the claim states it, fails in two places. A call with a credential whose title
  is \<open>None\<close> (or any value that is not a string) raises \<open>TypeError\<close> when the text parts
  are joined, before the index is looked at: not every call returns. And the third
  confidence is not 0.65: the code computes \<open>0.85 - 2 * 0.1\<close> in doubles, which is
  \<open>5854679515581644 / 2\<^sup>5\<^sup>3\<close>, printed \<open>0.6499999999999999\<close>, one unit in the last place below
  the double of 0.65.
\<close>

theorem recommend_empty_index_counterexample:
  "size_vs (init 384 :: pydict vector_store) = 0 \<and>
   recommend numpy_stable (\<lambda>t. [1]) (\<lambda>v. []) (init 384) [''title'' \<mapsto> PNone] None 5 0.5 =
     Inl TypeError \<and>
   map confidence_score (generate_mock_recommendations 5) =
     [Fin (7656119366529843 / 2 ^ 53), Fin (3 / 4), Fin (5854679515581644 / 2 ^ 53)] \<and>
   map confidence_score (generate_mock_recommendations 5) \<noteq>
     [Fin (round_double (85 / 100)), Fin (round_double (75 / 100)), Fin (round_double (65 / 100))] \<and>
   map confidence_score (generate_mock_recommendations 5) \<noteq>
     [Fin (85 / 100), Fin (75 / 100), Fin (65 / 100)] \<and>
   round_double (65 / 100) = 5854679515581645 / 2 ^ 53 \<and>
   round_double (6499999999999999 / 10 ^ 16) = 5854679515581644 / 2 ^ 53"
proof -
  have a: "size_vs (init 384 :: pydict vector_store) = 0" by (simp add: size_vs_def init_def)
  have b: "recommend numpy_stable (\<lambda>t. [1]) (\<lambda>v. []) (init 384) [''title'' \<mapsto> PNone] None 5 0.5 =
             Inl TypeError"
    by (simp add: recommend_def query_text_def join_values_def)
  have c: "map confidence_score (generate_mock_recommendations 5) =
             [Fin (7656119366529843 / 2 ^ 53), Fin (3 / 4), Fin (5854679515581644 / 2 ^ 53)]"
    unfolding generate_mock_recommendations_def mock_recommendation_def Let_def
    by (simp add: upt_3 mock_confidence_0 mock_confidence_1 [unfolded One_nat_def]
          mock_confidence_2)
  have d: "map confidence_score (generate_mock_recommendations 5) \<noteq>
             [Fin (round_double (85 / 100)), Fin (round_double (75 / 100)),
              Fin (round_double (65 / 100))]"
    unfolding c double_065 by simp
  have e: "map confidence_score (generate_mock_recommendations 5) \<noteq>
             [Fin (85 / 100), Fin (75 / 100), Fin (65 / 100)]"
    unfolding c by simp
  from a b c d e double_065 double_06499 show ?thesis by (simp only: simp_thms)
qed

text \<open>
  C5, amended. For every call to \<open>recommend\<close> against an empty index with \<open>top_k\<close> at
  least 3: if the title, the description and the learning outcomes of the credential,
  where present, are strings (a list of outcomes holding strings), the call returns
  without an error exactly the three placeholder recommendations, with the descending
  confidences 0.85, 0.75 and 0.6499999999999999 (the doubles the code computes as
  \<open>0.85 - i * 0.1\<close>; the third is not the double 0.65);
  otherwise it raises \<open>TypeError\<close>. The record of a recommendation has no field that
  flags a placeholder. What marks the placeholders is their fixed reasoning text, which
  begins with \<open>Mock recommendation\<close>: no recommendation that the loop over search results
  builds, and so none that \<open>recommend\<close> returns from an index that is not empty, carries
  that text.
\<close>

theorem recommend_empty_index:
  assumes "size_vs vs = 0" and "3 \<le> top_k"
  shows "recommend np encode str_of vs mc tid top_k ms =
           (if text_fields_typed mc
            then Inr [mock_recommendation 0, mock_recommendation 1, mock_recommendation 2]
            else Inl TypeError) \<and>
         map confidence_score [mock_recommendation 0, mock_recommendation 1, mock_recommendation 2] =
           [Fin (round_double (85 / 100)), Fin (3 / 4),
            Fin (round_double (6499999999999999 / 10 ^ 16))] \<and>
         map reasoning [mock_recommendation 0, mock_recommendation 1, mock_recommendation 2] =
           [mock_reasoning, mock_reasoning, mock_reasoning] \<and>
         (\<forall>str_of' mc' tid' top_k' results recs.
            recommend_loop str_of' mc' tid' top_k' results [] = Inr recs \<longrightarrow>
            (\<forall>r \<in> set recs. reasoning r \<noteq> mock_reasoning)) \<and>
         (\<forall>np' encode' str_of' vs' mc' tid' top_k' ms' recs.
            size_vs vs' \<noteq> 0 \<and> recommend np' encode' str_of' vs' mc' tid' top_k' ms' = Inr recs \<longrightarrow>
            (\<forall>r \<in> set recs. reasoning r \<noteq> mock_reasoning))"
proof -
  from assms(2) have "nat (min top_k 3) = 3" by simp
  then have m: "generate_mock_recommendations top_k =
               [mock_recommendation 0, mock_recommendation 1, mock_recommendation 2]"
    by (simp add: generate_mock_recommendations_def upt_3)
  have a: "recommend np encode str_of vs mc tid top_k ms =
           (if text_fields_typed mc
            then Inr [mock_recommendation 0, mock_recommendation 1, mock_recommendation 2]
            else Inl TypeError)"
  proof (cases "text_fields_typed mc")
    case True
    then obtain q where "query_text mc = Inr q" using query_text_typed by blast
    with True m assms(1) show ?thesis by (simp add: recommend_def)
  next
    case False
    with query_text_untyped [OF False] show ?thesis by (simp add: recommend_def)
  qed
  have b: "map confidence_score [mock_recommendation 0, mock_recommendation 1, mock_recommendation 2] =
           [Fin (round_double (85 / 100)), Fin (3 / 4),
            Fin (round_double (6499999999999999 / 10 ^ 16))]"
    unfolding mock_recommendation_def Let_def double_085 double_06499
    by (simp add: mock_confidence_0 mock_confidence_1 [unfolded One_nat_def]
          mock_confidence_2)
  have c: "map reasoning [mock_recommendation 0, mock_recommendation 1, mock_recommendation 2] =
           [mock_reasoning, mock_reasoning, mock_reasoning]"
    by (simp add: mock_recommendation_def Let_def)
  have d: "\<forall>str_of' mc' tid' top_k' results recs.
            recommend_loop str_of' mc' tid' top_k' results [] = Inr recs \<longrightarrow>
            (\<forall>r \<in> set recs. reasoning r \<noteq> mock_reasoning)"
  proof (intro allI impI)
    fix str_of' mc' tid' top_k' results recs
    assume "recommend_loop str_of' mc' tid' top_k' results [] = Inr recs"
    then show "\<forall>r \<in> set recs. reasoning r \<noteq> mock_reasoning"
      by (rule recommend_loop_not_mock) simp
  qed
  have e: "\<forall>np' encode' str_of' vs' mc' tid' top_k' ms' recs.
            size_vs vs' \<noteq> 0 \<and> recommend np' encode' str_of' vs' mc' tid' top_k' ms' = Inr recs \<longrightarrow>
            (\<forall>r \<in> set recs. reasoning r \<noteq> mock_reasoning)"
    using recommend_not_mock by blast
  from a b c d e show ?thesis by (simp only: simp_thms)
qed

theorem recommend_empty_index_witness:
  "size_vs (init 384 :: pydict vector_store) = 0 \<and> (3 :: int) \<le> 5 \<and>
   text_fields_typed [''title'' \<mapsto> PStr ''Data Science''] \<and>
   recommend numpy_stable (\<lambda>t. [1]) (\<lambda>v. []) (init 384) [''title'' \<mapsto> PStr ''Data Science'']
       None 5 0.5 =
     Inr [mock_recommendation 0, mock_recommendation 1, mock_recommendation 2] \<and>
   \<not> text_fields_typed [''title'' \<mapsto> PNum 3] \<and>
   recommend numpy_stable (\<lambda>t. [1]) (\<lambda>v. []) (init 384) [''title'' \<mapsto> PNum 3] None 5 0.5 =
     Inl TypeError \<and>
   size_vs \<lparr>dimension = 1, vectors = [[1]], metadata = [Map.empty :: pydict],
            id_to_index = [(''a'', 0)]\<rparr> \<noteq> 0 \<and>
   recommend numpy_stable (\<lambda>t. [1]) (\<lambda>v. [])
     \<lparr>dimension = 1, vectors = [[1]], metadata = [Map.empty], id_to_index = [(''a'', 0)]\<rparr>
     Map.empty None 5 0.5 =
     Inr [\<lparr>pathway_id = PStr ''a'', target_program_id = PStr ''unknown'',
           confidence_score = Fin 1,
           reasoning = ''High semantic similarity in program content and learning outcomes. Matching credential level (None).'',
           similarity_score = Fin 1, transfer_credits = PNone, institution_name = PNone\<rparr>] \<and>
   ''High semantic similarity in program content and learning outcomes. Matching credential level (None).''
     \<noteq> mock_reasoning"
proof -
  let ?vs = "\<lparr>dimension = 1, vectors = [[1]], metadata = [Map.empty :: pydict],
              id_to_index = [(''a'', 0)]\<rparr>"
  let ?r = "\<lparr>pathway_id = PStr ''a'', target_program_id = PStr ''unknown'',
           confidence_score = Fin 1,
           reasoning = ''High semantic similarity in program content and learning outcomes. Matching credential level (None).'',
           similarity_score = Fin 1, transfer_credits = PNone, institution_name = PNone\<rparr>"
  have e: "size_vs (init 384 :: pydict vector_store) = 0" by (simp add: size_vs_def init_def)
  have k: "(3 :: int) \<le> 5" by simp
  have q: "text_fields_typed [''title'' \<mapsto> PStr ''Data Science'']"
    by (simp add: text_fields_typed_def)
  have u: "\<not> text_fields_typed [''title'' \<mapsto> PNum 3]"
    by (simp add: text_fields_typed_def)
  have n: "size_vs ?vs \<noteq> 0" by (simp add: size_vs_def)
  have q0: "query_text Map.empty = Inr []"
    by (simp add: query_text_def join_values_def clean_text_def)
  have s: "search_with numpy_stable ?vs [1] (5 * 2) (Some 0.5) = Inr [(''a'', Fin 1, Map.empty)]"
    unfolding search_eq_search_with [symmetric]
    by (simp add: search_defs Let_def)
  have c: "calculate_confidence (Fin 1) Map.empty Map.empty = Inr (Fin 1)"
    by (simp add: calculate_confidence_def get_lower_def lower_def)
  have sr: "similarity_reason (Fin 1) =
              ''High semantic similarity in program content and learning outcomes''"
    unfolding similarity_reason_def double_08 by simp
  have g: "generate_reasoning (\<lambda>v. []) (Fin 1) Map.empty Map.empty =
             Inr ''High semantic similarity in program content and learning outcomes. Matching credential level (None).''"
    by (simp add: generate_reasoning_def level_reasons_def sr get_or_none_def format_value_def)
  have r: "recommend numpy_stable (\<lambda>t. [1]) (\<lambda>v. []) ?vs Map.empty None 5 0.5 = Inr [?r]"
    using q0 s c g n by (simp add: recommend_def)
  from recommend_empty_index [OF e k, of numpy_stable "\<lambda>t. [1]" "\<lambda>v. []"
         "[''title'' \<mapsto> PStr ''Data Science'']" None "0.5"]
       recommend_empty_index [OF e k, of numpy_stable "\<lambda>t. [1]" "\<lambda>v. []"
         "[''title'' \<mapsto> PNum 3]" None "0.5"] e q u n r
  show ?thesis by (simp add: mock_reasoning_def)
qed

end
